theory Spec2Isabelle
  imports Complex_Main "HOL-Library.Multiset"
begin

section \<open>The memory-matching puzzle of round_1 (game.ts, index.ts)\<close>

text \<open>
  The puzzle keeps one global \<^verbatim>\<open>state\<close> object, an array of card elements
  (\<^verbatim>\<open>cardRefs\<close>), the handle of the clock interval and the callbacks it has handed to
  \<^verbatim>\<open>setTimeout\<close>. The model threads all of them through a record \<open>World\<close>, together
  with the host clock that \<^verbatim>\<open>Date.now()\<close> reads. Symbols are JavaScript strings; they are
  kept as byte strings (the UTF-8 encoding of the source literals), which preserves the
  two things the code asks of a symbol: whether it is empty and whether two are equal.
\<close>

subsection \<open>The random source\<close>

text \<open>
  \<^verbatim>\<open>Math.random()\<close> returns a number \<open>u\<close> with \<open>0 \<le> u < 1\<close>. The type carries that
  range, so \<^verbatim>\<open>Math.floor(Math.random() * n)\<close> is an index below \<open>n\<close> as in the host.
\<close>

typedef random_number = "{u :: rat. 0 \<le> u \<and> u < 1}"
  by (rule exI [of _ 0]) simp

setup_lifting type_definition_random_number

lift_definition floor_scaled :: "random_number \<Rightarrow> nat \<Rightarrow> nat" is
  "\<lambda>u n. nat \<lfloor>u * of_nat n\<rfloor>" .

text \<open>Concrete draws for evaluation: \<open>k / n\<close> when that lies in the range, else \<open>0\<close>.\<close>

lift_definition random_of :: "nat \<Rightarrow> nat \<Rightarrow> random_number" is
  "\<lambda>k n. if k < n then of_nat k / of_nat n else 0"
  by (auto simp: divide_less_eq)

subsection \<open>index.ts: shuffle\<close>

text \<open>
  \<^verbatim>\<open>
  export const shuffle = <T,>(input: T[]): T[] => {
    const arr = [...input];
    for (let i = arr.length - 1; i > 0; i -= 1) {
      const j = Math.floor(Math.random() * (i + 1));
      const temp = arr[i]!;
      arr[i] = arr[j]!;
      arr[j] = temp;
    }
    return arr;
  };
  \<close>
  \<open>rnd k\<close> is the result of the \<open>k\<close>-th call of \<^verbatim>\<open>Math.random\<close> made by this run of the
  loop. Since \<open>j \<le> i < length arr\<close> every read and write is in range.
\<close>

fun shuffle_loop :: "(nat \<Rightarrow> random_number) \<Rightarrow> nat \<Rightarrow> nat \<Rightarrow> 'a list \<Rightarrow> 'a list" where
  "shuffle_loop rnd k 0 arr = arr"
| "shuffle_loop rnd k (Suc m) arr =
     (let i = Suc m;
          j = floor_scaled (rnd k) (i + 1);
          temp = arr ! i;
          arr1 = arr[i := arr ! j];
          arr2 = arr1[j := temp]
      in shuffle_loop rnd (Suc k) m arr2)"

definition shuffle :: "(nat \<Rightarrow> random_number) \<Rightarrow> 'a list \<Rightarrow> 'a list" where
  "shuffle rnd input = shuffle_loop rnd 0 (length input - 1) input"

subsection \<open>game.ts: types and the difficulty table\<close>

datatype DifficultyKey = chill | zest | inferno

datatype CardState = Idle | Flipped | Matched

datatype Mood = Good | Bad

record DifficultyConfig =
  key :: DifficultyKey
  emoji :: string
  pairs :: nat
  cols :: nat
  cardAura :: string
  pool :: "string list"

definition chill_pool :: "string list" where
  "chill_pool =
    [[CHR 0xF0, CHR 0x9F, CHR 0x8D, CHR 0x89], [CHR 0xF0, CHR 0x9F, CHR 0x8D, CHR 0x8B],
     [CHR 0xF0, CHR 0x9F, CHR 0x8D, CHR 0x87], [CHR 0xF0, CHR 0x9F, CHR 0x8D, CHR 0x8A],
     [CHR 0xF0, CHR 0x9F, CHR 0x8D, CHR 0x93], [CHR 0xF0, CHR 0x9F, CHR 0x8D, CHR 0x8D],
     [CHR 0xF0, CHR 0x9F, CHR 0xA5, CHR 0x9D], [CHR 0xF0, CHR 0x9F, CHR 0x8D, CHR 0x92],
     [CHR 0xF0, CHR 0x9F, CHR 0x8D, CHR 0x91], [CHR 0xF0, CHR 0x9F, CHR 0x8D, CHR 0x88]]"

definition zest_pool :: "string list" where
  "zest_pool =
    [[CHR 0xF0, CHR 0x9F, CHR 0x92, CHR 0x8E], [CHR 0xF0, CHR 0x9F, CHR 0x94, CHR 0xB7],
     [CHR 0xF0, CHR 0x9F, CHR 0x94, CHR 0xB9], [CHR 0xF0, CHR 0x9F, CHR 0x94, CHR 0xB5],
     [CHR 0xF0, CHR 0x9F, CHR 0x8C, CHR 0x80], [CHR 0xF0, CHR 0x9F, CHR 0x92, CHR 0xA0],
     [CHR 0xF0, CHR 0x9F, CHR 0x94, CHR 0xAE], [CHR 0xF0, CHR 0x9F, CHR 0xAA, CHR 0xAC],
     [CHR 0xF0, CHR 0x9F, CHR 0x94, CHR 0xAD], [CHR 0xF0, CHR 0x9F, CHR 0xA7, CHR 0xBF]]"

definition inferno_pool :: "string list" where
  "inferno_pool =
    [[CHR 0xF0, CHR 0x9F, CHR 0x94, CHR 0xB5], [CHR 0xF0, CHR 0x9F, CHR 0x94, CHR 0xB9],
     [CHR 0xF0, CHR 0x9F, CHR 0x94, CHR 0x98],
     [CHR 0xE2, CHR 0x9A, CHR 0xAB, CHR 0xEF, CHR 0xB8, CHR 0x8F],
     [CHR 0xE2, CHR 0x9A, CHR 0xAA, CHR 0xEF, CHR 0xB8, CHR 0x8F],
     [CHR 0xF0, CHR 0x9F, CHR 0x94, CHR 0xB4], [CHR 0xF0, CHR 0x9F, CHR 0x9F, CHR 0xA0],
     [CHR 0xF0, CHR 0x9F, CHR 0x9F, CHR 0xA1], [CHR 0xF0, CHR 0x9F, CHR 0x9F, CHR 0xA2],
     [CHR 0xF0, CHR 0x9F, CHR 0x9F, CHR 0xA3], [CHR 0xF0, CHR 0x9F, CHR 0x94, CHR 0xB7],
     [CHR 0xF0, CHR 0x9F, CHR 0x94, CHR 0xB6], [CHR 0xF0, CHR 0x9F, CHR 0x9F, CHR 0xA6],
     [CHR 0xF0, CHR 0x9F, CHR 0x9F, CHR 0xA5], [CHR 0xF0, CHR 0x9F, CHR 0x9F, CHR 0xA7],
     [CHR 0xF0, CHR 0x9F, CHR 0x9F, CHR 0xAA], [CHR 0xF0, CHR 0x9F, CHR 0x94, CHR 0xB3],
     [CHR 0xF0, CHR 0x9F, CHR 0x94, CHR 0xB2],
     [CHR 0xE2, CHR 0x97, CHR 0xBC, CHR 0xEF, CHR 0xB8, CHR 0x8F],
     [CHR 0xE2, CHR 0x97, CHR 0xBB, CHR 0xEF, CHR 0xB8, CHR 0x8F],
     [CHR 0xE2, CHR 0x96, CHR 0xAA, CHR 0xEF, CHR 0xB8, CHR 0x8F],
     [CHR 0xE2, CHR 0x96, CHR 0xAB, CHR 0xEF, CHR 0xB8, CHR 0x8F],
     [CHR 0xE2, CHR 0x97, CHR 0xBD, CHR 0xEF, CHR 0xB8, CHR 0x8F],
     [CHR 0xE2, CHR 0x97, CHR 0xBE, CHR 0xEF, CHR 0xB8, CHR 0x8F]]"

fun difficulties :: "DifficultyKey \<Rightarrow> DifficultyConfig" where
  "difficulties chill =
     \<lparr>key = chill, emoji = [CHR 0xF0, CHR 0x9F, CHR 0x99, CHR 0x82], pairs = 6, cols = 4,
      cardAura = ''from-yellow-200/50 via-amber-200/40 to-orange-200/40'',
      pool = chill_pool\<rparr>"
| "difficulties zest =
     \<lparr>key = zest, emoji = [CHR 0xF0, CHR 0x9F, CHR 0xA5, CHR 0xB6], pairs = 8, cols = 4,
      cardAura = ''from-orange-400/40 via-amber-500/35 to-rose-400/30'',
      pool = zest_pool\<rparr>"
| "difficulties inferno =
     \<lparr>key = inferno, emoji = [CHR 0xF0, CHR 0x9F, CHR 0x92, CHR 0x80], pairs = 12, cols = 6,
      cardAura = ''from-rose-700/40 via-red-700/35 to-fuchsia-700/30'',
      pool = inferno_pool\<rparr>"

record GameState =
  difficulty :: DifficultyKey
  deck :: "string list"
  matched :: "nat list"
  moves :: nat
  elapsedMs :: int
  runningSince :: "int option"
  bestTimes :: "DifficultyKey \<rightharpoonup> int"
  flipped :: "nat list"
  locked :: bool
  victory :: bool

definition FLIP_DURATION :: int where
  "FLIP_DURATION = 650"

definition MISMATCH_RESET_DELAY :: int where
  "MISMATCH_RESET_DELAY = FLIP_DURATION + 900"

definition WAIT_AFTER_MATCH :: int where
  "WAIT_AFTER_MATCH = FLIP_DURATION + 300"

subsection \<open>buildDeck and createInitialState\<close>

text \<open>
  \<^verbatim>\<open>
  const buildDeck = (config) => {
    const picks = shuffle(config.pool).slice(0, config.pairs);
    return shuffle(picks.flatMap((symbol) => [symbol, symbol]));
  };
  \<close>
  The first shuffle makes \<open>length pool - 1\<close> draws; the second one continues in the
  stream of draws where the first stopped.
\<close>

definition buildDeck :: "(nat \<Rightarrow> random_number) \<Rightarrow> DifficultyConfig \<Rightarrow> string list" where
  "buildDeck rnd config =
     (let picks = take (pairs config) (shuffle rnd (pool config))
      in shuffle (\<lambda>k. rnd (k + (length (pool config) - 1)))
           (concat (map (\<lambda>symbol. [symbol, symbol]) picks)))"

definition defaultDifficulty :: DifficultyKey where
  "defaultDifficulty = chill"

definition createInitialState :: "(nat \<Rightarrow> random_number) \<Rightarrow> GameState" where
  "createInitialState rnd =
     (let initialConfig = difficulties defaultDifficulty
      in \<lparr>difficulty = defaultDifficulty, deck = buildDeck rnd initialConfig, matched = [],
          moves = 0, elapsedMs = 0, runningSince = None, bestTimes = Map.empty,
          flipped = [], locked = False, victory = False\<rparr>)"

subsection \<open>The page: cards, pending callbacks, the clock\<close>

text \<open>
  A card element carries the two data attributes the code writes:
  \<^verbatim>\<open>dataset.state\<close> and \<^verbatim>\<open>dataset.feedback\<close> (absent: \<open>None\<close>).
\<close>

record Card =
  data_state :: "CardState option"
  data_feedback :: "Mood option"

text \<open>
  The closures the code passes to \<^verbatim>\<open>setTimeout\<close> and \<^verbatim>\<open>requestAnimationFrame\<close>,
  each with the values it captures:
  \<^item> \<open>FlashFeedback indices mood duration\<close> is \<^verbatim>\<open>() => flashFeedback(indices, mood, duration)\<close>
    (queueMismatchReset with \<open>Bad\<close> and 800; handleFlip with \<open>Good\<close> and 2000);
  \<^item> \<open>ClearFeedback indices mood\<close> is the closure inside flashFeedback;
  \<^item> \<open>MismatchReset indices\<close> is the second closure of queueMismatchReset;
  \<^item> \<open>MarkMatched first second\<close> is the 250 ms closure of handleFlip;
  \<^item> \<open>MarkRebuilt index\<close> is the animation-frame closure of rebuildBoard.
\<close>

datatype Callback =
    FlashFeedback "nat list" Mood int
  | ClearFeedback "nat list" Mood
  | MismatchReset "nat list"
  | MarkMatched nat nat
  | MarkRebuilt nat

text \<open>
  \<open>timeouts\<close> holds the pending callbacks with their due times, in the order they were
  queued. \<open>timerHandle\<close> is \<open>Some t\<close> while the 400 ms interval started at time \<open>t\<close> is
  active. \<open>now\<close> is the host clock in milliseconds.
\<close>

record World =
  state :: GameState
  cardRefs :: "Card list"
  timerHandle :: "int option"
  timeouts :: "(int \<times> Callback) list"
  now :: int

definition setTimeout :: "Callback \<Rightarrow> int \<Rightarrow> World \<Rightarrow> World" where
  "setTimeout cb delay w = w\<lparr>timeouts := timeouts w @ [(now w + delay, cb)]\<rparr>"

text \<open>setFeedback(index, mood?): no card, no effect; no mood deletes the attribute.\<close>

definition setFeedback :: "nat \<Rightarrow> Mood option \<Rightarrow> World \<Rightarrow> World" where
  "setFeedback index mood w =
     (if index < length (cardRefs w)
      then w\<lparr>cardRefs := (cardRefs w)[index := (cardRefs w ! index)\<lparr>data_feedback := mood\<rparr>]\<rparr>
      else w)"

definition setCardVisualState :: "nat \<Rightarrow> CardState \<Rightarrow> World \<Rightarrow> World" where
  "setCardVisualState index next w =
     (if index < length (cardRefs w)
      then w\<lparr>cardRefs := (cardRefs w)[index := (cardRefs w ! index)\<lparr>data_state := Some next\<rparr>]\<rparr>
      else w)"

definition flashFeedback :: "nat list \<Rightarrow> Mood \<Rightarrow> int \<Rightarrow> World \<Rightarrow> World" where
  "flashFeedback indices mood duration w =
     setTimeout (ClearFeedback indices mood) duration
       (fold (\<lambda>idx. setFeedback idx (Some mood)) indices w)"

text \<open>The closure of flashFeedback, for one index.\<close>

definition clearFeedbackAt :: "Mood \<Rightarrow> nat \<Rightarrow> World \<Rightarrow> World" where
  "clearFeedbackAt mood idx w =
     (if \<not> idx < length (cardRefs w) then w
      else if mood = Good \<and> data_state (cardRefs w ! idx) = Some Matched then w
      else setFeedback idx None w)"

subsection \<open>The clock: tickTimer, startTimer, stopTimer\<close>

definition tickTimer :: "World \<Rightarrow> World" where
  "tickTimer w =
     (case runningSince (state w) of
        None \<Rightarrow> w
      | Some since \<Rightarrow> w\<lparr>state := (state w)\<lparr>elapsedMs := now w - since\<rparr>\<rparr>)"

definition startTimer :: "bool \<Rightarrow> World \<Rightarrow> World" where
  "startTimer preserveAnchor w =
     (if runningSince (state w) \<noteq> None \<and> \<not> preserveAnchor then w
      else
        let w1 = (if \<not> preserveAnchor
                  then w\<lparr>state := (state w)\<lparr>runningSince := Some (now w), elapsedMs := 0\<rparr>\<rparr>
                  else w);
            w2 = tickTimer w1
        in w2\<lparr>timerHandle := Some (now w2)\<rparr>)"

definition stopTimer :: "World \<Rightarrow> World" where
  "stopTimer w =
     (let w1 = w\<lparr>timerHandle := None\<rparr>;
          w2 = (case runningSince (state w1) of
                  None \<Rightarrow> w1
                | Some since \<Rightarrow> w1\<lparr>state := (state w1)\<lparr>elapsedMs := now w1 - since\<rparr>\<rparr>)
      in w2\<lparr>state := (state w2)\<lparr>runningSince := None\<rparr>\<rparr>)"

subsection \<open>Callbacks and the passage of time\<close>

text \<open>What each queued closure does when the host runs it.\<close>

fun fire :: "Callback \<Rightarrow> World \<Rightarrow> World" where
  "fire (FlashFeedback indices mood duration) w = flashFeedback indices mood duration w"
| "fire (ClearFeedback indices mood) w = fold (clearFeedbackAt mood) indices w"
| "fire (MismatchReset indices) w =
     (let w1 = fold (\<lambda>idx. setCardVisualState idx Idle) indices w;
          w2 = fold (\<lambda>idx. setFeedback idx None) indices w1
      in w2\<lparr>state := (state w2)\<lparr>flipped := [], locked := False\<rparr>\<rparr>)"
| "fire (MarkMatched first second) w =
     setCardVisualState second Matched (setCardVisualState first Matched w)"
| "fire (MarkRebuilt index) w = setCardVisualState index Matched w"

text \<open>
  The host runs pending callbacks in the order of their due times, and callbacks due at
  the same time in the order they were queued.
\<close>

fun earliest :: "(int \<times> Callback) list \<Rightarrow> (int \<times> Callback) option" where
  "earliest [] = None"
| "earliest (x # xs) =
     (case earliest xs of
        None \<Rightarrow> Some x
      | Some y \<Rightarrow> if fst y < fst x then Some y else Some x)"

fun weight :: "Callback \<Rightarrow> nat" where
  "weight (FlashFeedback indices mood duration) = 2"
| "weight cb = 1"

definition pending_weight :: "World \<Rightarrow> nat" where
  "pending_weight w = sum_list (map (\<lambda>e. weight (snd e)) (timeouts w))"

definition run_one :: "int \<Rightarrow> Callback \<Rightarrow> World \<Rightarrow> World" where
  "run_one t cb w =
     fire cb (w\<lparr>now := max (now w) t, timeouts := remove1 (t, cb) (timeouts w)\<rparr>)"

text \<open>Running a callback never leaves more work behind than it took away.\<close>

lemma earliest_in: "earliest ts = Some e \<Longrightarrow> e \<in> set ts"
  by (induction ts arbitrary: e) (auto split: option.splits if_splits)

lemma earliest_least: "earliest ts = Some e \<Longrightarrow> x \<in> set ts \<Longrightarrow> fst e \<le> fst x"
proof (induction ts arbitrary: e)
  case Nil
  then show ?case by simp
next
  case (Cons a ts)
  show ?case
  proof (cases "earliest ts")
    case None
    then have "ts = []" by (cases ts) (auto split: option.splits if_splits)
    with Cons.prems None show ?thesis by auto
  next
    case (Some y)
    with Cons.prems Cons.IH [of y] show ?thesis
      by (fastforce split: if_splits)
  qed
qed

lemma earliest_None: "earliest ts = None \<longleftrightarrow> ts = []"
  by (cases ts) (auto split: option.splits if_splits)

lemma timeouts_setFeedback [simp]: "timeouts (setFeedback i m w) = timeouts w"
  by (simp add: setFeedback_def)

lemma timeouts_setCardVisualState [simp]: "timeouts (setCardVisualState i s w) = timeouts w"
  by (simp add: setCardVisualState_def)

lemma timeouts_clearFeedbackAt [simp]: "timeouts (clearFeedbackAt m i w) = timeouts w"
  by (simp add: clearFeedbackAt_def)

lemma timeouts_fold_same:
  "(\<And>i w. timeouts (f i w) = timeouts w) \<Longrightarrow> timeouts (fold f is w) = timeouts w"
  by (induction "is" arbitrary: w) auto

lemma now_setFeedback [simp]: "now (setFeedback i m w) = now w"
  by (simp add: setFeedback_def)

lemma now_fold_same:
  "(\<And>i w. now (f i w) = now w) \<Longrightarrow> now (fold f is w) = now w"
  by (induction "is" arbitrary: w) auto

lemma timeouts_fire:
  "timeouts (fire cb w) =
     timeouts w @ (case cb of FlashFeedback indices mood duration \<Rightarrow> [(now w + duration, ClearFeedback indices mood)] | _ \<Rightarrow> [])"
  by (cases cb) (simp_all add: flashFeedback_def setTimeout_def timeouts_fold_same now_fold_same Let_def)

lemma pending_weight_run_one:
  assumes "earliest (timeouts w) = Some (t, cb)"
  shows "pending_weight (run_one t cb w) < pending_weight w"
proof -
  have mem: "(t, cb) \<in> set (timeouts w)" using assms by (rule earliest_in)
  have sp: "sum_list (map (\<lambda>e. weight (snd e)) (timeouts w)) =
      weight cb + sum_list (map (\<lambda>e. weight (snd e)) (remove1 (t, cb) (timeouts w)))"
    using sum_list_map_remove1 [OF mem, of "\<lambda>e. weight (snd e)"] by simp
  show ?thesis
    unfolding pending_weight_def run_one_def
    by (simp add: timeouts_fire sp del: fire.simps split: Callback.splits)
qed

text \<open>
  \<open>run_timeouts T\<close>: the host runs every callback that falls due up to time \<open>T\<close>,
  including those queued meanwhile. A callback that is overdue runs at once, without
  moving the clock back.
\<close>

function run_timeouts :: "int \<Rightarrow> World \<Rightarrow> World" where
  "run_timeouts T w =
     (case earliest (timeouts w) of
        None \<Rightarrow> w
      | Some (t, cb) \<Rightarrow> if t \<le> T then run_timeouts T (run_one t cb w) else w)"
  by pat_completeness auto
termination
  by (relation "measure (\<lambda>(T, w). pending_weight w)") (auto simp: pending_weight_run_one)

declare run_timeouts.simps [simp del]

text \<open>
  The 400 ms interval that startTimer arms calls tickTimer at \<open>h + 400\<close>, \<open>h + 800\<close>, ...
  while \<open>timerHandle = Some h\<close>. Every call overwrites \<^verbatim>\<open>elapsedMs\<close> and nothing else,
  and no queued callback reads it or touches the handle, so over a stretch of time only
  the last tick in it shows: \<open>run_interval since w\<close> applies that tick, if one fell
  after \<open>since\<close> and not after \<open>now w\<close>.
\<close>

definition run_interval :: "int \<Rightarrow> World \<Rightarrow> World" where
  "run_interval since w =
     (case timerHandle w of
        None \<Rightarrow> w
      | Some h \<Rightarrow>
          let k = (now w - h) div 400;
              last_tick = h + 400 * k
          in if 1 \<le> k \<and> since < last_tick
             then (tickTimer (w\<lparr>now := last_tick\<rparr>))\<lparr>now := now w\<rparr>
             else w)"

text \<open>\<open>advance d\<close>: \<open>d\<close> milliseconds pass with no input.\<close>

definition advance :: "nat \<Rightarrow> World \<Rightarrow> World" where
  "advance d w =
     (let T = now w + int d;
          w1 = run_timeouts T w
      in run_interval (now w) (w1\<lparr>now := T\<rparr>))"

subsection \<open>The flip protocol\<close>

text \<open>
  \<^verbatim>\<open>
  const queueMismatchReset = (indices) => {
    state.locked = true;
    window.setTimeout(() => { flashFeedback(indices, 'bad', 800); }, FLIP_DURATION);
    setTimeout(() => {
      indices.forEach((idx) => setCardVisualState(idx, 'idle'));
      indices.forEach((idx) => setFeedback(idx));
      state.flipped = [];
      state.locked = false;
    }, MISMATCH_RESET_DELAY);
  };
  \<close>
\<close>

definition queueMismatchReset :: "nat list \<Rightarrow> World \<Rightarrow> World" where
  "queueMismatchReset indices w =
     (let w1 = w\<lparr>state := (state w)\<lparr>locked := True\<rparr>\<rparr>;
          w2 = setTimeout (FlashFeedback indices Bad 800) FLIP_DURATION w1
      in setTimeout (MismatchReset indices) MISMATCH_RESET_DELAY w2)"

text \<open>
  \<^verbatim>\<open>
  const handleWin = () => {
    state.victory = true;
    stopTimer();
    const duration = state.elapsedMs;
    const previousBest = state.bestTimes[state.difficulty];
    if (!previousBest || duration < previousBest) {
      state.bestTimes[state.difficulty] = duration;
    }
    updateBest(); triggerVictoryBurst();
  };
  \<close>
  \<^verbatim>\<open>!previousBest\<close> holds for a missing entry and for the number 0. The two display
  calls write text and particles only; the timers triggerVictoryBurst sets remove
  particles from the page and touch neither the state nor the cards, so they are not
  kept in the queue of the model.
\<close>

definition handleWin :: "World \<Rightarrow> World" where
  "handleWin w =
     (let w1 = stopTimer (w\<lparr>state := (state w)\<lparr>victory := True\<rparr>\<rparr>);
          duration = elapsedMs (state w1);
          level = difficulty (state w1);
          record_it = w1\<lparr>state := (state w1)\<lparr>bestTimes := (bestTimes (state w1))(level \<mapsto> duration)\<rparr>\<rparr>
      in case bestTimes (state w1) level of
           None \<Rightarrow> record_it
         | Some previousBest \<Rightarrow>
             if previousBest = 0 \<or> duration < previousBest then record_it else w1)"

definition checkVictory :: "World \<Rightarrow> World" where
  "checkVictory w =
     (if length (matched (state w)) = length (deck (state w)) \<and> \<not> victory (state w)
      then handleWin w else w)"

text \<open>\<^verbatim>\<open>state.deck[i]\<close>: \<^verbatim>\<open>undefined\<close> (here \<open>None\<close>) outside the deck.\<close>

definition symbol_at :: "string list \<Rightarrow> nat \<Rightarrow> string option" where
  "symbol_at d i = (if i < length d then Some (d ! i) else None)"

text \<open>\<^verbatim>\<open>!symbol\<close>: \<^verbatim>\<open>undefined\<close> and the empty string are falsy.\<close>

definition falsy :: "string option \<Rightarrow> bool" where
  "falsy s = (s = None \<or> s = Some [])"

text \<open>
  handleFlip, lines 347-393 of game.ts. updateMoves only writes the moves display.
\<close>

definition handleFlip :: "nat \<Rightarrow> World \<Rightarrow> World" where
  "handleFlip index w =
     (if locked (state w) \<or> victory (state w) then w
      else if index \<in> set (flipped (state w)) \<or> index \<in> set (matched (state w)) then w
      else
        let w1 = (if runningSince (state w) = None then startTimer False w else w);
            w2 = w1\<lparr>state := (state w1)\<lparr>flipped := flipped (state w1) @ [index]\<rparr>\<rparr>;
            w3 = setCardVisualState index Flipped w2
        in if length (flipped (state w3)) = 2 then
             let w4 = w3\<lparr>state := (state w3)\<lparr>moves := moves (state w3) + 1\<rparr>\<rparr>;
                 first = flipped (state w4) ! 0;
                 second = flipped (state w4) ! 1;
                 firstSymbol = symbol_at (deck (state w4)) first;
                 secondSymbol = symbol_at (deck (state w4)) second
             in if falsy firstSymbol \<or> falsy secondSymbol then
                  w4\<lparr>state := (state w4)\<lparr>flipped := [], locked := False\<rparr>\<rparr>
                else if firstSymbol = secondSymbol then
                  let w5 = w4\<lparr>state := (state w4)\<lparr>matched := matched (state w4) @ [first, second]\<rparr>\<rparr>;
                      w6 = setTimeout (MarkMatched first second) 250 w5;
                      w7 = setTimeout (FlashFeedback [first, second] Good 2000) FLIP_DURATION w6;
                      w8 = w7\<lparr>state := (state w7)\<lparr>flipped := []\<rparr>\<rparr>
                  in checkVictory w8
                else queueMismatchReset [first, second] w4
           else w3)"

subsection \<open>Board and reset\<close>

text \<open>
  rebuildBoard empties \<^verbatim>\<open>cardRefs\<close> and pushes one new card per deck position; a
  position already in \<^verbatim>\<open>state.matched\<close> gets an animation-frame callback that marks it
  matched (queued here as due at once).
\<close>

definition rebuildBoard :: "World \<Rightarrow> World" where
  "rebuildBoard w =
     fold (\<lambda>index w'.
             let w'' = w'\<lparr>cardRefs := cardRefs w' @ [\<lparr>data_state = None, data_feedback = None\<rparr>]\<rparr>
             in if index \<in> set (matched (state w'')) then setTimeout (MarkRebuilt index) 0 w''
                else w'')
          [0..<length (deck (state w))] (w\<lparr>cardRefs := []\<rparr>)"

text \<open>
  \<^verbatim>\<open>
  const softReset = (level) => {
    const config = difficulties[level];
    stopTimer();
    state.difficulty = level;
    state.deck = buildDeck(config);
    state.matched = []; state.moves = 0; state.elapsedMs = 0; state.runningSince = null;
    state.flipped = []; state.locked = false; state.victory = false;
    rebuildBoard(); updateTimer(); updateMoves(); updateBest(); syncDifficultyPills();
  };
  \<close>
\<close>

definition softReset :: "DifficultyKey \<Rightarrow> (nat \<Rightarrow> random_number) \<Rightarrow> World \<Rightarrow> World" where
  "softReset level rnd w =
     (let config = difficulties level;
          w1 = stopTimer w
      in rebuildBoard
           (w1\<lparr>state := (state w1)\<lparr>difficulty := level, deck := buildDeck rnd config,
                 matched := [], moves := 0, elapsedMs := 0, runningSince := None,
                 flipped := [], locked := False, victory := False\<rparr>\<rparr>))"

text \<open>The page after loading at time \<open>t0\<close>: the initial state and its board.\<close>

definition initial_world :: "(nat \<Rightarrow> random_number) \<Rightarrow> int \<Rightarrow> World" where
  "initial_world rnd t0 =
     rebuildBoard \<lparr>state = createInitialState rnd, cardRefs = [], timerHandle = None,
                   timeouts = [], now = t0\<rparr>"

definition hasActiveProgress :: "World \<Rightarrow> bool" where
  "hasActiveProgress w =
     (moves (state w) > 0 \<or> length (matched (state w)) > 0 \<or> elapsedMs (state w) > 0
      \<or> length (flipped (state w)) > 0)"

subsection \<open>What can happen to the page\<close>

text \<open>
  \<^item> \<open>Click index\<close>: the card at \<open>index\<close> is clicked; its listener calls handleFlip(index).
    There is nothing to click where \<^verbatim>\<open>cardRefs\<close> has no card.
  \<^item> \<open>Wait d\<close>: \<open>d\<close> milliseconds pass.
  \<^item> \<open>ResetButton rnd\<close>: the reset button; \<open>rnd\<close> are the draws of the rebuilt deck.
  \<^item> \<open>DifficultyPill level confirmed rnd\<close>: a difficulty button; \<open>confirmed\<close> is the
    answer to \<^verbatim>\<open>window.confirm\<close>, asked only when there is progress to lose.
\<close>

datatype Event =
    Click nat
  | Wait nat
  | ResetButton "nat \<Rightarrow> random_number"
  | DifficultyPill DifficultyKey bool "nat \<Rightarrow> random_number"

fun apply_event :: "Event \<Rightarrow> World \<Rightarrow> World" where
  "apply_event (Click index) w = (if index < length (cardRefs w) then handleFlip index w else w)"
| "apply_event (Wait d) w = advance d w"
| "apply_event (ResetButton rnd) w = softReset (difficulty (state w)) rnd w"
| "apply_event (DifficultyPill level confirmed rnd) w =
     (if level \<noteq> difficulty (state w)
      then (if hasActiveProgress w \<and> \<not> confirmed then w else softReset level rnd w)
      else w)"

definition run :: "Event list \<Rightarrow> World \<Rightarrow> World" where
  "run events w = fold apply_event events w"

subsection \<open>The secret solver\<close>

text \<open>
  pickNextPair groups the unmatched positions by symbol in a \<^verbatim>\<open>Map\<close>, whose entries
  keep the order in which their keys were first set, and returns the first two
  positions of the first group that has two.
\<close>

fun bucket_push :: "string \<Rightarrow> nat \<Rightarrow> (string \<times> nat list) list \<Rightarrow> (string \<times> nat list) list" where
  "bucket_push symbol index [] = [(symbol, [index])]"
| "bucket_push symbol index ((k, grp) # rest) =
     (if k = symbol then (k, grp @ [index]) # rest
      else (k, grp) # bucket_push symbol index rest)"

definition buckets_of :: "GameState \<Rightarrow> (string \<times> nat list) list" where
  "buckets_of s =
     fold (\<lambda>index buckets.
             if index \<in> set (matched s) then buckets
             else bucket_push (deck s ! index) index buckets)
          [0..<length (deck s)] []"

fun first_group :: "(string \<times> nat list) list \<Rightarrow> (nat \<times> nat) option" where
  "first_group [] = None"
| "first_group ((k, grp) # rest) =
     (if length grp \<ge> 2 then Some (grp ! 0, grp ! 1) else first_group rest)"

definition pickNextPair :: "World \<Rightarrow> (nat \<times> nat) option" where
  "pickNextPair w = first_group (buckets_of (state w))"

text \<open>\<^verbatim>\<open>await sleep(duration)\<close>, with no input arriving meanwhile.\<close>

definition sleep :: "int \<Rightarrow> World \<Rightarrow> World" where
  "sleep duration w = advance (nat duration) w"

text \<open>
  \<^verbatim>\<open>
  const flipPairAutomatically = async (first, second) => {
    const firstCard = cardRefs[first];
    const secondCard = cardRefs[second];
    if (!firstCard || !secondCard) { return; }
    firstCard.click();
    await sleep(FLIP_DURATION + 120);
    secondCard.click();
    await sleep(WAIT_AFTER_MATCH);
  };
  \<close>
  The click listener of the card at a position calls handleFlip with that position.
\<close>

definition flipPairAutomatically :: "nat \<Rightarrow> nat \<Rightarrow> World \<Rightarrow> World" where
  "flipPairAutomatically first second w =
     (if \<not> first < length (cardRefs w) \<or> \<not> second < length (cardRefs w) then w
      else
        let w1 = handleFlip first w;
            w2 = sleep (FLIP_DURATION + 120) w1;
            w3 = handleFlip second w2
        in sleep WAIT_AFTER_MATCH w3)"

text \<open>
  The loop of \<^verbatim>\<open>window.secretSolvePuzzle\<close>. The branch that waits while the state is
  locked does not count against the guard, so nothing in the loop itself bounds the number
  of rounds: the result is \<open>None\<close> if the loop never ends.
\<close>

partial_function (option) solver_loop :: "nat \<Rightarrow> World \<Rightarrow> World option" where
  "solver_loop guard w =
     (if \<not> victory (state w) \<and> guard < 200 then
        (if locked (state w) then solver_loop guard (sleep FLIP_DURATION w)
         else
           (case pickNextPair w of
              None \<Rightarrow> Some w
            | Some (first, second) \<Rightarrow>
                solver_loop (guard + 1) (flipPairAutomatically first second w)))
      else Some w)"

declare solver_loop.simps [code]

definition secretSolvePuzzle :: "World \<Rightarrow> World option" where
  "secretSolvePuzzle w = (if victory (state w) then Some w else solver_loop 0 w)"

subsection \<open>A concrete session for evaluation\<close>

text \<open>
  With every draw equal to \<open>1/3\<close> the initial chill deck holds, by pool position, the
  symbols \<open>8 5 1 6 5 4 4 0 1 6 0 8\<close>: positions 0 and 11 are a pair, 0 and 1 are not.
\<close>

definition demo_draws :: "nat \<Rightarrow> random_number" where
  "demo_draws = (\<lambda>k. random_of 1 3)"

definition demo_world :: World where
  "demo_world = initial_world demo_draws 0"

subsection \<open>Predicates and sessions used in the statements\<close>

text \<open>A reveal is rejected under exactly the four conditions handleFlip tests first.\<close>

definition rejected :: "nat \<Rightarrow> World \<Rightarrow> bool" where
  "rejected index w \<longleftrightarrow>
     locked (state w) \<or> victory (state w) \<or> index \<in> set (flipped (state w))
     \<or> index \<in> set (matched (state w))"

text \<open>What the mismatch-resolution callback does to the state.\<close>

definition clear_turn :: "GameState \<Rightarrow> GameState" where
  "clear_turn s = s\<lparr>flipped := [], locked := False\<rparr>"

fun is_reset :: "Callback \<Rightarrow> bool" where
  "is_reset (MismatchReset indices) = True"
| "is_reset cb = False"

text \<open>A mismatch-resolution callback is pending and due by time \<open>T\<close>.\<close>

definition reset_due :: "int \<Rightarrow> World \<Rightarrow> bool" where
  "reset_due T w \<longleftrightarrow> (\<exists>e \<in> set (timeouts w). fst e \<le> T \<and> is_reset (snd e))"

text \<open>The two facts of C7 about a state.\<close>

definition tracks_victory :: "GameState \<Rightarrow> bool" where
  "tracks_victory s \<longleftrightarrow>
     even (length (matched s)) \<and> victory s = (length (matched s) = length (deck s))"

text \<open>Twelve reveals that solve the deck of \<open>demo_world\<close>, pair by pair.\<close>

definition quick_win :: "Event list" where
  "quick_win = map Click [0, 11, 1, 4, 2, 8, 3, 9, 5, 6, 7, 10]"

text \<open>The same twelve reveals with five seconds between the first and the second.\<close>

definition slow_win :: "Event list" where
  "slow_win = Click 0 # Wait 5000 # map Click [11, 1, 4, 2, 8, 3, 9, 5, 6, 7, 10]"

text \<open>Events that are reveals; events that are reveals or waits.\<close>

fun is_click :: "Event \<Rightarrow> bool" where
  "is_click (Click index) = True"
| "is_click e = False"

text \<open>
  A mismatch at time 0, the reset button at time 100, and one reveal in the new session.
\<close>

definition reset_during_mismatch :: World where
  "reset_during_mismatch =
     run [Click 0, Click 1, Wait 100, ResetButton demo_draws, Click 2] demo_world"

fun is_play :: "Event \<Rightarrow> bool" where
  "is_play (Click index) = True"
| "is_play (Wait d) = True"
| "is_play e = False"

fun wait_of :: "Event \<Rightarrow> nat" where
  "wait_of (Wait d) = d"
| "wait_of e = 0"

text \<open>The time that passes over a list of events.\<close>

definition waited :: "Event list \<Rightarrow> nat" where
  "waited es = sum_list (map wait_of es)"

text \<open>No mismatch-resolution callback is pending.\<close>

definition no_reset_pending :: "World \<Rightarrow> bool" where
  "no_reset_pending w \<longleftrightarrow> (\<forall>e \<in> set (timeouts w). \<not> is_reset (snd e))"

text \<open>
  The state between a mismatch and its resolution: locked, the pair in the buffer, and
  exactly one mismatch-resolution callback pending, for this pair and not yet due.
\<close>

definition lock_window :: "int \<Rightarrow> nat list \<Rightarrow> nat list \<Rightarrow> nat \<Rightarrow> World \<Rightarrow> bool" where
  "lock_window tr pair m mv v \<longleftrightarrow>
     locked (state v) \<and> \<not> victory (state v) \<and> flipped (state v) = pair
     \<and> matched (state v) = m \<and> moves (state v) = mv \<and> now v < tr
     \<and> (tr, MismatchReset pair) \<in> set (timeouts v)
     \<and> (\<forall>e \<in> set (timeouts v). is_reset (snd e) \<longrightarrow> e = (tr, MismatchReset pair))"

text \<open>
  The state of the concrete session after the reset button was pressed during a mismatch
  and positions 0 and 1 were revealed again, 900 ms later.
\<close>

definition mismatch_after_reset :: World where
  "mismatch_after_reset =
     run [Click 0, Click 1, Wait 100, ResetButton demo_draws, Wait 900, Click 0, Click 1]
       demo_world"

text \<open>The positions not yet matched, left to right, and those among them holding a symbol.\<close>

definition unmatched :: "GameState \<Rightarrow> nat list" where
  "unmatched s = filter (\<lambda>i. i \<notin> set (matched s)) [0..<length (deck s)]"

definition positions_of :: "GameState \<Rightarrow> string \<Rightarrow> nat list" where
  "positions_of s k = filter (\<lambda>i. deck s ! i = k) (unmatched s)"

text \<open>
  The states in which the solver starts a round: nothing revealed, nothing locked, no
  mismatch being resolved, a card for every position, \<open>victory\<close> up to date, and every
  symbol of the deck (none of them empty) with either both or none of its positions
  still to match.
\<close>

definition solver_ready :: "World \<Rightarrow> bool" where
  "solver_ready w \<longleftrightarrow>
     flipped (state w) = [] \<and> \<not> locked (state w)
     \<and> victory (state w) = (length (matched (state w)) = length (deck (state w)))
     \<and> distinct (matched (state w))
     \<and> (\<forall>i \<in> set (matched (state w)). i < length (deck (state w)))
     \<and> (\<forall>k \<in> set (deck (state w)).
           k \<noteq> [] \<and> (length (positions_of (state w) k) = 0
                      \<or> length (positions_of (state w) k) = 2))
     \<and> no_reset_pending w
     \<and> length (cardRefs w) = length (deck (state w))"

section \<open>Properties\<close>

subsection \<open>What the helpers leave alone\<close>

lemma state_setFeedback [simp]: "state (setFeedback i m w) = state w"
  by (simp add: setFeedback_def)

lemma state_setCardVisualState [simp]: "state (setCardVisualState i s w) = state w"
  by (simp add: setCardVisualState_def)

lemma state_setTimeout [simp]: "state (setTimeout cb d w) = state w"
  by (simp add: setTimeout_def)

lemma state_startTimer:
  "state (startTimer False w) =
     (if runningSince (state w) \<noteq> None then state w
      else (state w)\<lparr>runningSince := Some (now w), elapsedMs := 0\<rparr>)"
  by (simp add: startTimer_def tickTimer_def Let_def)

lemma state_stopTimer:
  "state (stopTimer w) =
     (case runningSince (state w) of
        None \<Rightarrow> state w
      | Some since \<Rightarrow> (state w)\<lparr>elapsedMs := now w - since, runningSince := None\<rparr>)"
  by (cases "state w") (simp add: stopTimer_def Let_def split: option.splits)

lemma handleWin_fields [simp]:
  "victory (state (handleWin w))"
  "matched (state (handleWin w)) = matched (state w)"
  "flipped (state (handleWin w)) = flipped (state w)"
  "locked (state (handleWin w)) = locked (state w)"
  "deck (state (handleWin w)) = deck (state w)"
  "moves (state (handleWin w)) = moves (state w)"
  "runningSince (state (handleWin w)) = None"
  "difficulty (state (handleWin w)) = difficulty (state w)"
  by (simp_all add: handleWin_def Let_def state_stopTimer split: option.splits)

lemma state_checkVictory:
  "state (checkVictory w) =
     (if length (matched (state w)) = length (deck (state w)) \<and> \<not> victory (state w)
      then state (handleWin w) else state w)"
  by (simp add: checkVictory_def)

lemma moves_checkVictory [simp]: "moves (state (checkVictory w)) = moves (state w)"
  by (simp add: checkVictory_def)

lemma state_queueMismatchReset [simp]:
  "state (queueMismatchReset indices w) = (state w)\<lparr>locked := True\<rparr>"
  by (simp add: queueMismatchReset_def Let_def)

subsection \<open>Rejected reveals (C4)\<close>

text \<open>
  C4. A reveal made while \<open>locked\<close> is true, or \<open>victory\<close> is true, or for an index that is
  already in the flip buffer or in the matched list, changes nothing at all: the state
  (deck, matched, flipped, moves, locked, victory, the timer fields, the best times), the
  cards, the interval handle and the pending callbacks are the ones before the call.
\<close>

theorem handleFlip_rejected_noop:
  "locked (state w) \<or> victory (state w) \<or> index \<in> set (flipped (state w))
     \<or> index \<in> set (matched (state w)) \<Longrightarrow> handleFlip index w = w"
  by (auto simp: handleFlip_def)

theorem handleFlip_rejected_noop_witness:
  "locked (state (handleFlip 1 (handleFlip 0 demo_world)))
   \<and> handleFlip 2 (handleFlip 1 (handleFlip 0 demo_world)) = handleFlip 1 (handleFlip 0 demo_world)"
proof -
  have l: "locked (state (handleFlip 1 (handleFlip 0 demo_world)))"
    by code_simp
  from handleFlip_rejected_noop [of "handleFlip 1 (handleFlip 0 demo_world)" 2] l
  show ?thesis by blast
qed

subsection \<open>Counting moves (C5)\<close>

text \<open>
  C5. A reveal adds exactly one to \<open>moves\<close> when it is accepted and finds one position in
  the flip buffer, that is when it completes a two-card turn, whatever the two symbols
  are; a reveal that is rejected, and an accepted reveal that does not complete a turn,
  leave \<open>moves\<close> as it is. An accepted reveal on an empty buffer leaves the buffer at
  size one.
\<close>

theorem handleFlip_moves:
  "moves (state (handleFlip index w)) =
     (if rejected index w then moves (state w)
      else if length (flipped (state w)) = 1 then moves (state w) + 1
      else moves (state w))
   \<and> (\<not> rejected index w \<and> flipped (state w) = []
        \<longrightarrow> flipped (state (handleFlip index w)) = [index])"
proof (intro conjI impI)
  show "moves (state (handleFlip index w)) =
     (if rejected index w then moves (state w)
      else if length (flipped (state w)) = 1 then moves (state w) + 1
      else moves (state w))"
    by (simp add: handleFlip_def rejected_def Let_def state_startTimer)
next
  assume "\<not> rejected index w \<and> flipped (state w) = []"
  then show "flipped (state (handleFlip index w)) = [index]"
    by (simp add: handleFlip_def rejected_def Let_def state_startTimer)
qed

theorem handleFlip_moves_witness:
  "moves (state (handleFlip 0 demo_world)) = 0
   \<and> flipped (state (handleFlip 0 demo_world)) = [0]
   \<and> moves (state (handleFlip 1 (handleFlip 0 demo_world))) = 1
   \<and> moves (state (handleFlip 11 (handleFlip 0 demo_world))) = 1
   \<and> moves (state (handleFlip 2 (handleFlip 1 (handleFlip 0 demo_world)))) = 1"
proof -
  let ?w1 = "handleFlip 0 demo_world"
  let ?w2 = "handleFlip 1 ?w1"
  have e: "\<not> rejected 0 demo_world" "flipped (state demo_world) = []"
    "moves (state demo_world) = 0" "\<not> rejected 1 ?w1" "\<not> rejected 11 ?w1"
    "length (flipped (state ?w1)) = 1" "rejected 2 ?w2"
    by code_simp+
  from handleFlip_moves [of 0 demo_world] handleFlip_moves [of 1 ?w1]
    handleFlip_moves [of 11 ?w1] handleFlip_moves [of 2 ?w2] e
  show ?thesis by simp
qed

subsection \<open>A matching pair (C6)\<close>

text \<open>
  C6. When an accepted reveal completes a turn and the two positions hold the same
  (non-empty) symbol, the same call appends both positions to \<open>matched\<close>, empties the
  flip buffer, leaves \<open>locked\<close> false, counts the move, and re-checks victory at once:
  \<open>victory\<close> afterwards says whether the matched list has reached the length of the deck.
\<close>

theorem handleFlip_match:
  assumes "\<not> locked (state w)" and "\<not> victory (state w)"
    and "flipped (state w) = [first]" and "index \<noteq> first"
    and "index \<notin> set (matched (state w))"
    and "symbol_at (deck (state w)) first = Some symbol"
    and "symbol_at (deck (state w)) index = Some symbol"
    and "symbol \<noteq> []"
  shows "matched (state (handleFlip index w)) = matched (state w) @ [first, index]
       \<and> flipped (state (handleFlip index w)) = []
       \<and> \<not> locked (state (handleFlip index w))
       \<and> victory (state (handleFlip index w))
           = (length (matched (state (handleFlip index w))) = length (deck (state w)))
       \<and> moves (state (handleFlip index w)) = moves (state w) + 1"
  using assms
  by (simp add: handleFlip_def Let_def state_startTimer falsy_def state_checkVictory)

theorem handleFlip_match_witness:
  "\<not> locked (state (handleFlip 0 demo_world)) \<and> \<not> victory (state (handleFlip 0 demo_world))
   \<and> flipped (state (handleFlip 0 demo_world)) = [0]
   \<and> matched (state (handleFlip 11 (handleFlip 0 demo_world))) = [0, 11]
   \<and> flipped (state (handleFlip 11 (handleFlip 0 demo_world))) = []
   \<and> \<not> locked (state (handleFlip 11 (handleFlip 0 demo_world)))
   \<and> \<not> victory (state (handleFlip 11 (handleFlip 0 demo_world)))
   \<and> moves (state (handleFlip 11 (handleFlip 0 demo_world))) = 1"
proof -
  let ?w = "handleFlip 0 demo_world"
  let ?s = "[CHR 0xF0, CHR 0x9F, CHR 0x8D, CHR 0x91]"
  have a: "\<not> locked (state ?w)" "\<not> victory (state ?w)" "flipped (state ?w) = [0]"
    "(11::nat) \<noteq> 0" "11 \<notin> set (matched (state ?w))"
    "symbol_at (deck (state ?w)) 0 = Some ?s" "symbol_at (deck (state ?w)) 11 = Some ?s"
    "?s \<noteq> []"
    by code_simp+
  have m: "matched (state ?w) = []" "moves (state ?w) = 0" "length (deck (state ?w)) = 12"
    by code_simp+
  from handleFlip_match [OF a] a(1-3) m show ?thesis by simp
qed

subsection \<open>The guard against a missing symbol (C10)\<close>

text \<open>
  C10. When an accepted reveal completes a turn and one of the two positions has no
  symbol (the position lies outside the deck, or the symbol is the empty string), the
  call ends the turn there: the flip buffer is emptied and \<open>locked\<close> is false, \<open>matched\<close>,
  \<open>victory\<close>, the deck and the best times are untouched, no callback is queued, and
  \<open>moves\<close> has counted the turn once, as for every completed turn. Reading outside the
  deck yields no symbol, not an exception, so the call returns normally.
\<close>

theorem handleFlip_missing_symbol:
  assumes "\<not> locked (state w)" and "\<not> victory (state w)"
    and "flipped (state w) = [first]" and "index \<noteq> first"
    and "index \<notin> set (matched (state w))"
    and "falsy (symbol_at (deck (state w)) first) \<or> falsy (symbol_at (deck (state w)) index)"
  shows "flipped (state (handleFlip index w)) = []
       \<and> \<not> locked (state (handleFlip index w))
       \<and> matched (state (handleFlip index w)) = matched (state w)
       \<and> moves (state (handleFlip index w)) = moves (state w) + 1
       \<and> \<not> victory (state (handleFlip index w))
       \<and> deck (state (handleFlip index w)) = deck (state w)
       \<and> bestTimes (state (handleFlip index w)) = bestTimes (state w)
       \<and> timeouts (handleFlip index w) = timeouts w"
  using assms
  by (auto simp: handleFlip_def Let_def state_startTimer startTimer_def tickTimer_def)

theorem handleFlip_missing_symbol_witness:
  "falsy (symbol_at (deck (state (handleFlip 0 demo_world))) 99)
   \<and> flipped (state (handleFlip 99 (handleFlip 0 demo_world))) = []
   \<and> \<not> locked (state (handleFlip 99 (handleFlip 0 demo_world)))
   \<and> matched (state (handleFlip 99 (handleFlip 0 demo_world))) = []
   \<and> moves (state (handleFlip 99 (handleFlip 0 demo_world))) = 1"
proof -
  let ?w = "handleFlip 0 demo_world"
  have a: "\<not> locked (state ?w)" "\<not> victory (state ?w)" "flipped (state ?w) = [0]"
    "(99::nat) \<noteq> 0" "99 \<notin> set (matched (state ?w))"
    by code_simp+
  have f: "falsy (symbol_at (deck (state ?w)) 99)"
    by code_simp
  then have d: "falsy (symbol_at (deck (state ?w)) 0) \<or> falsy (symbol_at (deck (state ?w)) 99)"
    by blast
  have m: "matched (state ?w) = []" "moves (state ?w) = 0"
    by code_simp+
  from handleFlip_missing_symbol [OF a d] f m show ?thesis by simp
qed

subsection \<open>Deck construction (C3)\<close>

text \<open>The shuffle of index.ts only swaps elements inside the array: it permutes its input.\<close>

lemma floor_scaled_less: "0 < n \<Longrightarrow> floor_scaled u n < n"
proof (transfer)
  fix n :: nat and u :: rat
  assume n: "0 < n" and u: "0 \<le> u \<and> u < 1"
  then have "u * of_nat n < of_nat n" by simp
  then have "\<lfloor>u * of_nat n\<rfloor> < int n" by (simp add: floor_less_iff)
  then show "nat \<lfloor>u * of_nat n\<rfloor> < n" using n by linarith
qed

lemma mset_shuffle_loop:
  "m < length arr \<Longrightarrow> mset (shuffle_loop rnd k m arr) = mset arr"
proof (induction m arbitrary: k arr)
  case 0
  then show ?case by simp
next
  case (Suc m)
  let ?j = "floor_scaled (rnd k) (Suc m + 1)"
  have j: "?j < length arr"
    using floor_scaled_less [of "Suc m + 1" "rnd k"] Suc.prems by simp
  have swap: "mset (arr[Suc m := arr ! ?j, ?j := arr ! Suc m]) = mset arr"
    using mset_swap [OF j Suc.prems] by simp
  have "mset (shuffle_loop rnd (Suc k) m (arr[Suc m := arr ! ?j, ?j := arr ! Suc m]))
      = mset (arr[Suc m := arr ! ?j, ?j := arr ! Suc m])"
    using Suc.prems by (intro Suc.IH) simp
  with swap show ?case by (simp add: Let_def)
qed

lemma mset_shuffle: "mset (shuffle rnd input) = mset input"
proof (cases input)
  case Nil
  then show ?thesis by (simp add: shuffle_def)
next
  case (Cons x xs)
  then show ?thesis by (simp add: shuffle_def mset_shuffle_loop)
qed

lemma length_shuffle: "length (shuffle rnd input) = length input"
  using mset_shuffle [of rnd input] by (rule mset_eq_length)

lemma set_shuffle: "set (shuffle rnd input) = set input"
  using mset_shuffle [of rnd input] by (rule mset_eq_setD)

lemma distinct_shuffle: "distinct (shuffle rnd input) = distinct input"
  using mset_shuffle [of rnd input] by (rule mset_eq_imp_distinct_iff)

lemma mset_doubled:
  "mset (concat (map (\<lambda>symbol. [symbol, symbol]) picks)) = mset picks + mset picks"
  by (induction picks) simp_all

lemma mset_buildDeck:
  "mset (buildDeck rnd config) =
     mset (take (pairs config) (shuffle rnd (pool config)))
     + mset (take (pairs config) (shuffle rnd (pool config)))"
  by (simp add: buildDeck_def Let_def mset_shuffle mset_doubled)

lemma length_buildDeck:
  "pairs config \<le> length (pool config) \<Longrightarrow> length (buildDeck rnd config) = 2 * pairs config"
proof -
  assume le: "pairs config \<le> length (pool config)"
  have "size (mset (buildDeck rnd config)) =
      2 * length (take (pairs config) (shuffle rnd (pool config)))"
    by (simp add: mset_buildDeck)
  with le show ?thesis by (simp add: length_shuffle)
qed

lemma count_buildDeck:
  assumes "distinct (pool config)" and "symbol \<in> set (buildDeck rnd config)"
  shows "count_list (buildDeck rnd config) symbol = 2"
proof -
  let ?picks = "take (pairs config) (shuffle rnd (pool config))"
  have d: "distinct ?picks"
    using assms(1) by (simp add: distinct_shuffle)
  have "symbol \<in># mset (buildDeck rnd config)" using assms(2) by simp
  then have "symbol \<in> set ?picks" by (simp add: mset_buildDeck)
  with d have "count (mset ?picks) symbol = 1"
    by (simp add: distinct_count_atmost_1)
  then have "count (mset (buildDeck rnd config)) symbol = 2"
    by (simp add: mset_buildDeck)
  then show ?thesis by (simp add: count_mset)
qed

text \<open>
  C3. For every configuration whose pool has distinct symbols and at least \<open>pairs\<close> of
  them, and for every outcome of the random draws, the deck that buildDeck returns has
  length \<open>2 * pairs\<close> and every symbol in it occurs exactly twice. That the shuffle is a
  permutation is proved above from its code, not assumed.
\<close>

theorem buildDeck_paired:
  assumes "distinct (pool config)" and "pairs config \<le> length (pool config)"
  shows "length (buildDeck rnd config) = 2 * pairs config
       \<and> (\<forall>symbol \<in> set (buildDeck rnd config). count_list (buildDeck rnd config) symbol = 2)"
  using assms by (simp add: length_buildDeck count_buildDeck)

theorem buildDeck_paired_witness:
  "distinct (pool (difficulties chill))
   \<and> pairs (difficulties chill) \<le> length (pool (difficulties chill))
   \<and> length (buildDeck demo_draws (difficulties chill)) = 12
   \<and> buildDeck demo_draws (difficulties chill) ! 0 \<in> set (buildDeck demo_draws (difficulties chill))
   \<and> count_list (buildDeck demo_draws (difficulties chill))
        (buildDeck demo_draws (difficulties chill) ! 0) = 2"
proof -
  have a: "distinct (pool (difficulties chill))"
    "pairs (difficulties chill) \<le> length (pool (difficulties chill))"
    by code_simp+
  have p: "pairs (difficulties chill) = 6" by simp
  have m: "buildDeck demo_draws (difficulties chill) ! 0 \<in> set (buildDeck demo_draws (difficulties chill))"
    by code_simp
  from buildDeck_paired [OF a, of demo_draws] a p m show ?thesis by simp
qed

subsection \<open>Board and reset: what they keep\<close>

lemma fold_invariant:
  "P w \<Longrightarrow> (\<And>x w. P w \<Longrightarrow> P (f x w)) \<Longrightarrow> P (fold f xs w)"
  by (induction xs arbitrary: w) auto

lemma state_fold_same:
  "(\<And>x w. state (f x w) = state w) \<Longrightarrow> state (fold f xs w) = state w"
  by (induction xs arbitrary: w) auto

lemma state_rebuildBoard [simp]: "state (rebuildBoard w) = state w"
proof -
  have "state (rebuildBoard w) = state (w\<lparr>cardRefs := []\<rparr>)"
    unfolding rebuildBoard_def
    by (rule state_fold_same) (simp add: Let_def)
  then show ?thesis by simp
qed

lemma timeouts_rebuildBoard:
  assumes "matched (state w) = []"
  shows "timeouts (rebuildBoard w) = timeouts w"
proof -
  let ?P = "\<lambda>v. state v = state w \<and> timeouts v = timeouts w"
  have "?P (rebuildBoard w)"
    unfolding rebuildBoard_def
    by (rule fold_invariant) (simp_all add: Let_def assms)
  then show ?thesis by simp
qed

lemma now_rebuildBoard [simp]: "now (rebuildBoard w) = now w"
proof -
  have "now (rebuildBoard w) = now (w\<lparr>cardRefs := []\<rparr>)"
    unfolding rebuildBoard_def
    by (rule now_fold_same) (simp add: Let_def setTimeout_def)
  then show ?thesis by simp
qed

lemma timerHandle_rebuildBoard [simp]: "timerHandle (rebuildBoard w) = timerHandle w"
proof -
  have "(\<lambda>v. timerHandle v = timerHandle w) (rebuildBoard w)"
    unfolding rebuildBoard_def
    by (rule fold_invariant) (simp_all add: Let_def setTimeout_def)
  then show ?thesis .
qed

lemma length_cardRefs_fold:
  "(\<And>x w. length (cardRefs (f x w)) = Suc (length (cardRefs w))) \<Longrightarrow>
   length (cardRefs (fold f xs w)) = length (cardRefs w) + length xs"
  by (induction xs arbitrary: w) auto

lemma length_cardRefs_rebuildBoard [simp]:
  "length (cardRefs (rebuildBoard w)) = length (deck (state w))"
proof -
  have "length (cardRefs (rebuildBoard w)) =
      length (cardRefs (w\<lparr>cardRefs := []\<rparr>)) + length [0..<length (deck (state w))]"
    unfolding rebuildBoard_def
    by (rule length_cardRefs_fold) (simp add: Let_def setTimeout_def)
  then show ?thesis by simp
qed

lemma state_softReset:
  "state (softReset level rnd w) =
     (state w)\<lparr>difficulty := level, deck := buildDeck rnd (difficulties level),
       matched := [], moves := 0, elapsedMs := 0, runningSince := None,
       flipped := [], locked := False, victory := False\<rparr>"
  by (cases "state w") (simp add: softReset_def Let_def state_stopTimer split: option.splits)

lemma timeouts_stopTimer [simp]: "timeouts (stopTimer w) = timeouts w"
  by (simp add: stopTimer_def Let_def split: option.splits)

lemma now_stopTimer [simp]: "now (stopTimer w) = now w"
  by (simp add: stopTimer_def Let_def split: option.splits)

lemma timeouts_softReset: "timeouts (softReset level rnd w) = timeouts w"
  by (simp add: softReset_def Let_def timeouts_rebuildBoard)

lemma bestTimes_softReset: "bestTimes (state (softReset level rnd w)) = bestTimes (state w)"
  by (simp add: state_softReset)

subsection \<open>What pending callbacks can do to the state\<close>

lemma clear_turn_idem [simp]: "clear_turn (clear_turn s) = clear_turn s"
  by (simp add: clear_turn_def)

lemma state_fire:
  "state (fire cb w) = (if is_reset cb then clear_turn (state w) else state w)"
  by (cases cb)
     (simp_all add: flashFeedback_def clearFeedbackAt_def state_fold_same Let_def clear_turn_def)

lemma state_run_one:
  "state (run_one t cb w) = (if is_reset cb then clear_turn (state w) else state w)"
  by (simp add: run_one_def state_fire)

lemma timeouts_run_one:
  "timeouts (run_one t cb w) =
     remove1 (t, cb) (timeouts w) @
     (case cb of FlashFeedback indices mood duration \<Rightarrow>
        [(max (now w) t + duration, ClearFeedback indices mood)] | _ \<Rightarrow> [])"
  by (cases cb) (simp_all add: run_one_def timeouts_fire del: fire.simps)

lemma resets_run_one:
  assumes "t \<le> T"
  shows "{e \<in> set (timeouts (run_one t cb w)). is_reset (snd e) \<and> T < fst e}
       = {e \<in> set (timeouts w). is_reset (snd e) \<and> T < fst e}"
proof -
  have "\<And>e. T < fst e \<Longrightarrow> e \<in> set (remove1 (t, cb) (timeouts w)) \<longleftrightarrow> e \<in> set (timeouts w)"
    using assms by (intro in_set_remove1) auto
  then show ?thesis
    by (auto simp: timeouts_run_one split: Callback.splits)
qed

lemma reset_due_run_one:
  assumes "\<not> is_reset cb"
  shows "reset_due T (run_one t cb w) = reset_due T w"
proof -
  have "\<And>e. is_reset (snd e) \<Longrightarrow> e \<in> set (remove1 (t, cb) (timeouts w)) \<longleftrightarrow> e \<in> set (timeouts w)"
    using assms by (intro in_set_remove1) auto
  then show ?thesis
    unfolding reset_due_def
    by (auto simp: timeouts_run_one split: Callback.splits)
qed

lemma state_run_timeouts:
  "state (run_timeouts T w) = (if reset_due T w then clear_turn (state w) else state w)"
proof (induction T w rule: run_timeouts.induct)
  case (1 T w)
  show ?case
  proof (cases "earliest (timeouts w)")
    case None
    then have "timeouts w = []" by (simp add: earliest_None)
    with None show ?thesis by (simp add: reset_due_def run_timeouts.simps [of T w])
  next
    case (Some e)
    obtain t cb where e: "e = (t, cb)" by (cases e)
    show ?thesis
    proof (cases "t \<le> T")
      case False
      have "\<not> reset_due T w"
        using earliest_least [OF Some] False e by (fastforce simp: reset_due_def)
      with Some e False show ?thesis by (simp add: run_timeouts.simps [of T w])
    next
      case True
      have mem: "(t, cb) \<in> set (timeouts w)" using Some e earliest_in by blast
      have step: "run_timeouts T w = run_timeouts T (run_one t cb w)"
        using Some e True by (simp add: run_timeouts.simps [of T w])
      have IH: "state (run_timeouts T (run_one t cb w)) =
          (if reset_due T (run_one t cb w) then clear_turn (state (run_one t cb w))
           else state (run_one t cb w))"
        using "1.IH" [OF Some e [symmetric] True] .
      show ?thesis
      proof (cases "is_reset cb")
        case True
        with mem \<open>t \<le> T\<close> have "reset_due T w" by (force simp: reset_due_def)
        with True IH step show ?thesis by (simp add: state_run_one)
      next
        case False
        with IH step show ?thesis by (simp add: state_run_one reset_due_run_one)
      qed
    qed
  qed
qed

lemma resets_run_timeouts:
  "{e \<in> set (timeouts (run_timeouts T w)). is_reset (snd e)}
     = {e \<in> set (timeouts w). is_reset (snd e) \<and> T < fst e}"
proof (induction T w rule: run_timeouts.induct)
  case (1 T w)
  show ?case
  proof (cases "earliest (timeouts w)")
    case None
    then have "timeouts w = []" by (simp add: earliest_None)
    with None show ?thesis by (simp add: run_timeouts.simps [of T w])
  next
    case (Some e)
    obtain t cb where e: "e = (t, cb)" by (cases e)
    show ?thesis
    proof (cases "t \<le> T")
      case False
      have "\<And>x. x \<in> set (timeouts w) \<Longrightarrow> T < fst x"
        using earliest_least [OF Some] False e by fastforce
      with Some e False show ?thesis by (auto simp: run_timeouts.simps [of T w])
    next
      case True
      have step: "run_timeouts T w = run_timeouts T (run_one t cb w)"
        using Some e True by (simp add: run_timeouts.simps [of T w])
      have IH: "{e \<in> set (timeouts (run_timeouts T (run_one t cb w))). is_reset (snd e)}
          = {e \<in> set (timeouts (run_one t cb w)). is_reset (snd e) \<and> T < fst e}"
        using "1.IH" [OF Some e [symmetric] True] .
      from IH step resets_run_one [OF True, of cb w] show ?thesis by simp
    qed
  qed
qed

lemma timerHandle_fire [simp]: "timerHandle (fire cb w) = timerHandle w"
proof -
  have a: "\<And>f is v. (\<And>i v. timerHandle (f i v) = timerHandle v)
      \<Longrightarrow> timerHandle (fold f is v) = timerHandle v"
    subgoal for f "is" v by (induction "is" arbitrary: v) auto
    done
  show ?thesis
    by (cases cb)
       (simp_all add: flashFeedback_def clearFeedbackAt_def setFeedback_def
          setCardVisualState_def setTimeout_def a Let_def)
qed

lemma timerHandle_run_timeouts [simp]: "timerHandle (run_timeouts T w) = timerHandle w"
proof (induction T w rule: run_timeouts.induct)
  case (1 T w)
  show ?case
  proof (cases "earliest (timeouts w)")
    case None
    then show ?thesis by (simp add: run_timeouts.simps [of T w])
  next
    case (Some e)
    obtain t cb where e: "e = (t, cb)" by (cases e)
    show ?thesis
    proof (cases "t \<le> T")
      case False
      with Some e show ?thesis by (simp add: run_timeouts.simps [of T w])
    next
      case True
      have "run_timeouts T w = run_timeouts T (run_one t cb w)"
        using Some e True by (simp add: run_timeouts.simps [of T w])
      moreover have "timerHandle (run_timeouts T (run_one t cb w)) = timerHandle (run_one t cb w)"
        using "1.IH" [OF Some e [symmetric] True] .
      ultimately show ?thesis by (simp add: run_one_def)
    qed
  qed
qed

subsection \<open>Victory tracks the matched list (C7)\<close>

lemma difficulties_sound:
  "distinct (pool (difficulties level))"
  "pairs (difficulties level) \<le> length (pool (difficulties level))"
  "0 < pairs (difficulties level)"
  by (cases level; simp add: chill_pool_def zest_pool_def inferno_pool_def)+

lemma run_interval_fields [simp]:
  "deck (state (run_interval since w)) = deck (state w)"
  "matched (state (run_interval since w)) = matched (state w)"
  "moves (state (run_interval since w)) = moves (state w)"
  "victory (state (run_interval since w)) = victory (state w)"
  "locked (state (run_interval since w)) = locked (state w)"
  "flipped (state (run_interval since w)) = flipped (state w)"
  "bestTimes (state (run_interval since w)) = bestTimes (state w)"
  "difficulty (state (run_interval since w)) = difficulty (state w)"
  "runningSince (state (run_interval since w)) = runningSince (state w)"
  "timeouts (run_interval since w) = timeouts w"
  "cardRefs (run_interval since w) = cardRefs w"
  "timerHandle (run_interval since w) = timerHandle w"
  "now (run_interval since w) = now w"
  by (simp_all add: run_interval_def tickTimer_def Let_def split: option.splits)

lemma advance_fields [simp]:
  "deck (state (advance d w)) = deck (state w)"
  "matched (state (advance d w)) = matched (state w)"
  "moves (state (advance d w)) = moves (state w)"
  "victory (state (advance d w)) = victory (state w)"
  "bestTimes (state (advance d w)) = bestTimes (state w)"
  "difficulty (state (advance d w)) = difficulty (state w)"
  "runningSince (state (advance d w)) = runningSince (state w)"
  "now (advance d w) = now w + int d"
  "timerHandle (advance d w) = timerHandle w"
  by (simp_all add: advance_def Let_def state_run_timeouts clear_turn_def)

lemma advance_turn:
  "flipped (state (advance d w)) = (if reset_due (now w + int d) w then [] else flipped (state w))"
  "locked (state (advance d w)) = (if reset_due (now w + int d) w then False else locked (state w))"
  by (simp_all add: advance_def Let_def state_run_timeouts clear_turn_def)

lemma tracks_victory_handleFlip:
  "tracks_victory (state w) \<Longrightarrow> tracks_victory (state (handleFlip index w))"
  by (auto simp: tracks_victory_def handleFlip_def Let_def state_startTimer state_checkVictory)
     (metis even_Suc_Suc_iff)+

lemma tracks_victory_advance:
  "tracks_victory (state w) \<Longrightarrow> tracks_victory (state (advance d w))"
  by (simp add: tracks_victory_def)

lemma tracks_victory_softReset: "tracks_victory (state (softReset level rnd w))"
  using difficulties_sound [of level]
  by (simp add: tracks_victory_def state_softReset length_buildDeck)

lemma tracks_victory_initial: "tracks_victory (state (initial_world rnd t0))"
  using difficulties_sound [of chill]
  by (simp add: tracks_victory_def initial_world_def createInitialState_def
        defaultDifficulty_def Let_def length_buildDeck del: difficulties.simps)

lemma tracks_victory_apply_event:
  "tracks_victory (state w) \<Longrightarrow> tracks_victory (state (apply_event e w))"
  by (cases e)
     (simp_all add: tracks_victory_handleFlip tracks_victory_advance tracks_victory_softReset)

lemma tracks_victory_run:
  "tracks_victory (state w) \<Longrightarrow> tracks_victory (state (run events w))"
  unfolding run_def
  by (induction events arbitrary: w) (simp_all add: tracks_victory_apply_event)

text \<open>
  C7. From the freshly loaded page and from every reset, after any sequence of reveals
  (and of waits, resets and difficulty changes in between; every prefix of a sequence is
  a sequence, so this is every instant) the length of \<open>matched\<close> is even and \<open>victory\<close>
  is true exactly when \<open>matched\<close> is as long as the deck.
\<close>

theorem victory_tracks_matched:
  "tracks_victory (state (run events (initial_world rnd t0)))
   \<and> tracks_victory (state (run events (softReset level rnd w)))"
  by (simp add: tracks_victory_run tracks_victory_initial tracks_victory_softReset)

theorem victory_tracks_matched_witness:
  "even (length (matched (state (run quick_win demo_world))))
   \<and> victory (state (run quick_win demo_world))
   \<and> length (matched (state (run quick_win demo_world))) = 12
   \<and> length (deck (state (run quick_win demo_world))) = 12
   \<and> \<not> victory (state (run (take 10 quick_win) demo_world))
   \<and> length (matched (state (run (take 10 quick_win) demo_world))) = 10"
proof -
  have a: "victory (state (run quick_win demo_world))"
    "length (matched (state (run quick_win demo_world))) = 12"
    "length (deck (state (run quick_win demo_world))) = 12"
    "\<not> victory (state (run (take 10 quick_win) demo_world))"
    "length (matched (state (run (take 10 quick_win) demo_world))) = 10"
    by code_simp+
  from victory_tracks_matched [of quick_win demo_draws 0] a
  show ?thesis by (simp add: tracks_victory_def demo_world_def)
qed

subsection \<open>Best times (C2)\<close>

lemma elapsedMs_stopTimer:
  "elapsedMs (state (stopTimer w)) =
     (case runningSince (state w) of None \<Rightarrow> elapsedMs (state w) | Some since \<Rightarrow> now w - since)"
  by (simp add: state_stopTimer split: option.splits)

lemma bestTimes_handleWin:
  "bestTimes (state (handleWin w)) =
     (let duration = (case runningSince (state w) of
                        None \<Rightarrow> elapsedMs (state w) | Some since \<Rightarrow> now w - since);
          level = difficulty (state w)
      in case bestTimes (state w) level of
           None \<Rightarrow> (bestTimes (state w))(level \<mapsto> duration)
         | Some previousBest \<Rightarrow>
             if previousBest = 0 \<or> duration < previousBest
             then (bestTimes (state w))(level \<mapsto> duration)
             else bestTimes (state w))"
  by (simp add: handleWin_def Let_def state_stopTimer split: option.splits)

text \<open>
  Where the stored best is not the number 0, handleWin does what C2 says: it stores the
  duration exactly when no best is stored or the duration is strictly smaller, so the
  stored best never grows; other levels are not touched.
\<close>

lemma handleWin_improves_nonzero_best:
  assumes "bestTimes (state w) (difficulty (state w)) = Some best" and "best \<noteq> 0"
  shows "\<exists>best'. bestTimes (state (handleWin w)) (difficulty (state w)) = Some best'
           \<and> best' \<le> best"
  using assms by (simp add: bestTimes_handleWin Let_def)

lemma handleWin_other_levels:
  "level \<noteq> difficulty (state w) \<Longrightarrow>
   bestTimes (state (handleWin w)) level = bestTimes (state w) level"
  by (simp add: bestTimes_handleWin Let_def split: option.splits)

text \<open>
  C2. The stored best time only ever decreases, or is set when there is none. The code
  tests \<^verbatim>\<open>!previousBest\<close>, which also holds when the stored best is the number 0: after a
  win of 0 ms (the twelve reveals of \<open>quick_win\<close> within one millisecond) the best for
  chill is 0, and the next win, of 5000 ms, replaces it: the stored best has grown.
\<close>

theorem best_time_grows_after_zero:
  "victory (state (run quick_win demo_world))
   \<and> bestTimes (state (run quick_win demo_world)) chill = Some 0
   \<and> bestTimes (state (run (quick_win @ [ResetButton demo_draws]) demo_world)) chill = Some 0
   \<and> victory (state (run (quick_win @ [ResetButton demo_draws] @ slow_win) demo_world))
   \<and> elapsedMs (state (run (quick_win @ [ResetButton demo_draws] @ slow_win) demo_world)) = 5000
   \<and> bestTimes (state (run (quick_win @ [ResetButton demo_draws] @ slow_win) demo_world)) chill
       = Some 5000"
  by code_simp

subsection \<open>Reset while a mismatch is being resolved (C1)\<close>

lemma now_setCardVisualState [simp]: "now (setCardVisualState i s w) = now w"
  by (simp add: setCardVisualState_def)

lemma now_setTimeout [simp]: "now (setTimeout cb d w) = now w"
  by (simp add: setTimeout_def)

lemma now_startTimer [simp]: "now (startTimer p w) = now w"
  by (simp add: startTimer_def tickTimer_def Let_def split: option.splits)

lemma now_handleWin [simp]: "now (handleWin w) = now w"
  by (simp add: handleWin_def Let_def split: option.splits)

lemma now_checkVictory [simp]: "now (checkVictory w) = now w"
  by (simp add: checkVictory_def)

lemma now_queueMismatchReset [simp]: "now (queueMismatchReset indices w) = now w"
  by (simp add: queueMismatchReset_def Let_def)

lemma now_handleFlip [simp]: "now (handleFlip index w) = now w"
  by (simp add: handleFlip_def Let_def)

lemma now_softReset [simp]: "now (softReset level rnd w) = now w"
  by (simp add: softReset_def Let_def)

lemma timeouts_startTimer [simp]: "timeouts (startTimer p w) = timeouts w"
  by (simp add: startTimer_def tickTimer_def Let_def split: option.splits)

lemma timeouts_handleWin [simp]: "timeouts (handleWin w) = timeouts w"
  by (simp add: handleWin_def Let_def split: option.splits)

lemma timeouts_checkVictory [simp]: "timeouts (checkVictory w) = timeouts w"
  by (simp add: checkVictory_def)

lemma timeouts_handleFlip_mono: "set (timeouts w) \<subseteq> set (timeouts (handleFlip index w))"
  by (auto simp: handleFlip_def Let_def setTimeout_def queueMismatchReset_def)

lemma clicks_keep_pending:
  assumes "list_all is_click es"
  shows "now (run es w) = now w \<and> set (timeouts w) \<subseteq> set (timeouts (run es w))"
  using assms unfolding run_def
proof (induction es arbitrary: w)
  case Nil
  then show ?case by simp
next
  case (Cons e es)
  then obtain index where e: "e = Click index" by (cases e) auto
  have "now (apply_event e w) = now w" using e by simp
  moreover have "set (timeouts w) \<subseteq> set (timeouts (apply_event e w))"
    using e timeouts_handleFlip_mono by simp
  moreover have "now (fold apply_event es (apply_event e w)) = now (apply_event e w)
      \<and> set (timeouts (apply_event e w)) \<subseteq> set (timeouts (fold apply_event es (apply_event e w)))"
    using Cons.IH [of "apply_event e w"] Cons.prems by simp
  ultimately show ?case by auto
qed

text \<open>
  C1, as the code has it. A reset does not cancel a pending mismatch-resolution callback:
  it is still queued after softReset, and after any reveals of the new session; once its
  delay has elapsed the flip buffer of the live session is empty and \<open>locked\<close> is false,
  whatever they were, while deck, matched, moves, victory and best times of the live
  session are as they were.
\<close>

theorem stale_mismatch_timer:
  assumes "(t, MismatchReset indices) \<in> set (timeouts w)"
    and "list_all is_click es"
    and "t \<le> now w + int d"
  shows "(t, MismatchReset indices) \<in> set (timeouts (softReset level rnd w))
       \<and> (t, MismatchReset indices) \<in> set (timeouts (run es (softReset level rnd w)))
       \<and> flipped (state (advance d (run es (softReset level rnd w)))) = []
       \<and> \<not> locked (state (advance d (run es (softReset level rnd w))))
       \<and> deck (state (advance d (run es (softReset level rnd w))))
           = deck (state (run es (softReset level rnd w)))
       \<and> matched (state (advance d (run es (softReset level rnd w))))
           = matched (state (run es (softReset level rnd w)))
       \<and> moves (state (advance d (run es (softReset level rnd w))))
           = moves (state (run es (softReset level rnd w)))
       \<and> victory (state (advance d (run es (softReset level rnd w))))
           = victory (state (run es (softReset level rnd w)))
       \<and> bestTimes (state (advance d (run es (softReset level rnd w))))
           = bestTimes (state (run es (softReset level rnd w)))"
proof -
  let ?v = "run es (softReset level rnd w)"
  have kept: "(t, MismatchReset indices) \<in> set (timeouts (softReset level rnd w))"
    using assms(1) by (simp add: timeouts_softReset)
  have c: "now ?v = now w" "set (timeouts (softReset level rnd w)) \<subseteq> set (timeouts ?v)"
    using clicks_keep_pending [OF assms(2), of "softReset level rnd w"] by simp_all
  with kept have pending: "(t, MismatchReset indices) \<in> set (timeouts ?v)" by blast
  then have "reset_due (now ?v + int d) ?v"
    using assms(3) c(1) by (force simp: reset_due_def)
  then show ?thesis
    using kept pending by (simp add: advance_turn)
qed

theorem stale_mismatch_timer_witness:
  "(1550, MismatchReset [0, 1]) \<in> set (timeouts (run [Click 0, Click 1, Wait 100] demo_world))
   \<and> flipped (state (run [Click 2] (softReset chill demo_draws
         (run [Click 0, Click 1, Wait 100] demo_world)))) = [2]
   \<and> flipped (state (advance 1450 (run [Click 2] (softReset chill demo_draws
         (run [Click 0, Click 1, Wait 100] demo_world))))) = []
   \<and> \<not> locked (state (advance 1450 (run [Click 2] (softReset chill demo_draws
         (run [Click 0, Click 1, Wait 100] demo_world)))))"
proof -
  let ?w = "run [Click 0, Click 1, Wait 100] demo_world"
  have a: "(1550, MismatchReset [0, 1]) \<in> set (timeouts ?w)"
    by code_simp
  have b: "list_all is_click [Click 2]" by simp
  have c: "1550 \<le> now ?w + int 1450" by code_simp
  have f: "flipped (state (run [Click 2] (softReset chill demo_draws ?w))) = [2]"
    by code_simp
  from stale_mismatch_timer [OF a b c, of chill demo_draws] a f
  show ?thesis by simp
qed

text \<open>
  C1 as stated fails. Positions 0 and 1 mismatch at time 0, the reset button is pressed
  at time 100, and position 2 is revealed in the new session. When the old delay elapses
  at time 1550 its callback empties the flip buffer of the new session (position 2
  stays face up on the page and can be revealed again) and marks the old positions 0
  and 1 of the new board idle.
\<close>

theorem stale_timer_clears_new_session:
  "now reset_during_mismatch = 100
   \<and> deck (state reset_during_mismatch) = deck (state demo_world)
   \<and> matched (state reset_during_mismatch) = []
   \<and> flipped (state reset_during_mismatch) = [2]
   \<and> data_state (cardRefs reset_during_mismatch ! 2) = Some Flipped
   \<and> data_state (cardRefs reset_during_mismatch ! 0) = None
   \<and> flipped (state (advance 1450 reset_during_mismatch)) = []
   \<and> data_state (cardRefs (advance 1450 reset_during_mismatch) ! 2) = Some Flipped
   \<and> data_state (cardRefs (advance 1450 reset_during_mismatch) ! 0) = Some Idle"
  by code_simp

subsection \<open>The lock after a mismatch (C8)\<close>

lemma handleFlip_locked: "locked (state w) \<Longrightarrow> handleFlip index w = w"
  by (simp add: handleFlip_def)

lemma handleFlip_mismatch:
  assumes "\<not> locked (state w)" and "\<not> victory (state w)"
    and "flipped (state w) = [first]" and "index \<noteq> first"
    and "index \<notin> set (matched (state w))"
    and "symbol_at (deck (state w)) first = Some a"
    and "symbol_at (deck (state w)) index = Some b"
    and "a \<noteq> []" and "b \<noteq> []" and "a \<noteq> b"
  shows "locked (state (handleFlip index w))"
    and "\<not> victory (state (handleFlip index w))"
    and "flipped (state (handleFlip index w)) = [first, index]"
    and "matched (state (handleFlip index w)) = matched (state w)"
    and "moves (state (handleFlip index w)) = moves (state w) + 1"
    and "timeouts (handleFlip index w) =
           timeouts w @ [(now w + FLIP_DURATION, FlashFeedback [first, index] Bad 800),
                         (now w + MISMATCH_RESET_DELAY, MismatchReset [first, index])]"
  using assms
  by (simp_all add: handleFlip_def Let_def state_startTimer falsy_def
        queueMismatchReset_def setTimeout_def)

lemma timeouts_advance: "timeouts (advance d w) = timeouts (run_timeouts (now w + int d) w)"
  by (simp add: advance_def Let_def)

lemma lock_window_advance:
  assumes "lock_window tr pair m mv v" and "now v + int d < tr"
  shows "lock_window tr pair m mv (advance d v)"
proof -
  let ?T = "now v + int d"
  let ?r = "(tr, MismatchReset pair)"
  have all: "\<forall>e \<in> set (timeouts v). is_reset (snd e) \<longrightarrow> e = ?r"
    and mem: "?r \<in> set (timeouts v)"
    using assms(1) by (simp_all add: lock_window_def)
  have only: "e = ?r" if "e \<in> set (timeouts v)" "is_reset (snd e)" for e
    using all that by blast
  have nd: "\<not> reset_due ?T v"
  proof
    assume "reset_due ?T v"
    then obtain e where e: "e \<in> set (timeouts v)" "fst e \<le> ?T" "is_reset (snd e)"
      unfolding reset_due_def by blast
    then have "e = ?r" using only by blast
    with e(2) assms(2) show False by simp
  qed
  have r: "{e \<in> set (timeouts (advance d v)). is_reset (snd e)}
      = {e \<in> set (timeouts v). is_reset (snd e) \<and> ?T < fst e}"
    by (simp only: timeouts_advance resets_run_timeouts)
  have mem': "?r \<in> set (timeouts (advance d v))"
  proof -
    have "?r \<in> {e \<in> set (timeouts v). is_reset (snd e) \<and> ?T < fst e}"
      using mem assms(2) by simp
    with r have "?r \<in> {e \<in> set (timeouts (advance d v)). is_reset (snd e)}" by simp
    then show ?thesis by simp
  qed
  have all': "\<forall>e \<in> set (timeouts (advance d v)). is_reset (snd e) \<longrightarrow> e = ?r"
  proof (intro ballI impI)
    fix e assume "e \<in> set (timeouts (advance d v))" "is_reset (snd e)"
    then have "e \<in> {e \<in> set (timeouts (advance d v)). is_reset (snd e)}" by simp
    with r have "e \<in> {e \<in> set (timeouts v). is_reset (snd e) \<and> ?T < fst e}" by simp
    then show "e = ?r" using only by simp
  qed
  have st: "locked (state (advance d v)) = locked (state v)"
    "flipped (state (advance d v)) = flipped (state v)"
    using nd by (simp_all add: advance_turn)
  have f: "locked (state v)" "\<not> victory (state v)" "flipped (state v) = pair"
    "matched (state v) = m" "moves (state v) = mv"
    using assms(1) by (simp_all add: lock_window_def)
  have "locked (state (advance d v)) \<and> \<not> victory (state (advance d v))
      \<and> flipped (state (advance d v)) = pair \<and> matched (state (advance d v)) = m
      \<and> moves (state (advance d v)) = mv \<and> now (advance d v) < tr"
    using st f assms(2) by simp
  with mem' all' show ?thesis
    unfolding lock_window_def by blast
qed

lemma lock_window_run:
  assumes "list_all is_play es" and "lock_window tr pair m mv v"
    and "now v + int (waited es) < tr"
  shows "lock_window tr pair m mv (run es v)"
  using assms unfolding run_def
proof (induction es arbitrary: v)
  case Nil
  then show ?case by simp
next
  case (Cons e es)
  have w: "waited (e # es) = wait_of e + waited es" by (simp add: waited_def)
  have step: "lock_window tr pair m mv (apply_event e v)
      \<and> now (apply_event e v) = now v + int (wait_of e)"
  proof (cases e)
    case (Click index)
    have "locked (state v)" using Cons.prems(2) by (simp add: lock_window_def)
    then show ?thesis using Click Cons.prems(2) by (simp add: handleFlip_locked)
  next
    case (Wait d)
    have "now v + int d < tr" using Cons.prems(3) Wait w by simp
    then show ?thesis using Wait Cons.prems(2) by (simp add: lock_window_advance)
  next
    case (ResetButton rnd)
    then show ?thesis using Cons.prems(1) by simp
  next
    case (DifficultyPill level confirmed rnd)
    then show ?thesis using Cons.prems(1) by simp
  qed
  have "lock_window tr pair m mv (fold apply_event es (apply_event e v))"
    using Cons.prems step w by (intro Cons.IH) simp_all
  then show ?case by simp
qed

lemma now_run_play:
  "list_all is_play es \<Longrightarrow> now (run es v) = now v + int (waited es)"
  unfolding run_def
proof (induction es arbitrary: v)
  case Nil
  then show ?case by (simp add: waited_def)
next
  case (Cons e es)
  have "now (apply_event e v) = now v + int (wait_of e)"
    using Cons.prems by (cases e) simp_all
  moreover have "now (fold apply_event es (apply_event e v))
      = now (apply_event e v) + int (waited es)"
    using Cons.prems by (intro Cons.IH) simp
  ultimately show ?case by (simp add: waited_def)
qed

lemma lock_window_ends:
  assumes "lock_window tr pair m mv v" and "tr \<le> now v + int d"
  shows "\<not> locked (state (advance d v))" and "flipped (state (advance d v)) = []"
    and "matched (state (advance d v)) = m" and "\<not> victory (state (advance d v))"
proof -
  have "reset_due (now v + int d) v"
    using assms by (force simp: lock_window_def reset_due_def)
  then show "\<not> locked (state (advance d v))" and "flipped (state (advance d v)) = []"
    by (simp_all add: advance_turn)
  show "matched (state (advance d v)) = m" and "\<not> victory (state (advance d v))"
    using assms(1) by (simp_all add: lock_window_def)
qed

lemma handleFlip_first_of_turn:
  assumes "\<not> locked (state v)" and "\<not> victory (state v)" and "flipped (state v) = []"
    and "index \<notin> set (matched (state v))"
  shows "flipped (state (handleFlip index v)) = [index]"
  using assms by (simp add: handleFlip_def Let_def state_startTimer)

lemma cardRefs_setFeedback:
  "cardRefs (setFeedback i m v) =
     (if i < length (cardRefs v) then (cardRefs v)[i := (cardRefs v ! i)\<lparr>data_feedback := m\<rparr>]
      else cardRefs v)"
  by (simp add: setFeedback_def)

lemma cardRefs_setCardVisualState:
  "cardRefs (setCardVisualState i s v) =
     (if i < length (cardRefs v) then (cardRefs v)[i := (cardRefs v ! i)\<lparr>data_state := Some s\<rparr>]
      else cardRefs v)"
  by (simp add: setCardVisualState_def)

lemma length_cardRefs_setFeedback [simp]:
  "length (cardRefs (setFeedback i m v)) = length (cardRefs v)"
  by (simp add: cardRefs_setFeedback)

lemma length_cardRefs_setCardVisualState [simp]:
  "length (cardRefs (setCardVisualState i s v)) = length (cardRefs v)"
  by (simp add: cardRefs_setCardVisualState)

lemma data_state_setFeedback [simp]:
  "data_state (cardRefs (setFeedback i m v) ! k) = data_state (cardRefs v ! k)"
  by (cases "k = i") (simp_all add: cardRefs_setFeedback)

lemma data_state_setCardVisualState:
  "k < length (cardRefs v) \<Longrightarrow>
   data_state (cardRefs (setCardVisualState i s v) ! k)
     = (if k = i then Some s else data_state (cardRefs v ! k))"
  by (simp add: cardRefs_setCardVisualState)

lemma mismatch_reset_hides:
  "first < length (cardRefs v) \<longrightarrow>
     data_state (cardRefs (fire (MismatchReset [first, index]) v) ! first) = Some Idle"
  "index < length (cardRefs v) \<longrightarrow>
     data_state (cardRefs (fire (MismatchReset [first, index]) v) ! index) = Some Idle"
  by (simp_all add: Let_def data_state_setCardVisualState)

text \<open>
  C8, as the code has it. Take a mismatch that happens while no mismatch-resolution
  callback of an earlier turn is pending (a reset during an earlier mismatch window is the
  only way to have one). Then \<open>locked\<close> is true at once. Over any reveals and waits that
  take less than MISMATCH_RESET_DELAY in all, the state stays locked with the pair in the
  buffer, \<open>matched\<close> and \<open>moves\<close> fixed, and every reveal is a no-op; the callback of the
  shorter delay changes nothing in the state. Once waiting has reached
  MISMATCH_RESET_DELAY, \<open>locked\<close> is false, the buffer is empty, \<open>matched\<close> is what it was,
  and each of the two positions can be revealed on its own; the callback that does it
  marks both cards idle.
\<close>

theorem mismatch_lock_window:
  assumes "\<not> locked (state w)" and "\<not> victory (state w)"
    and "flipped (state w) = [first]" and "index \<noteq> first"
    and "first \<notin> set (matched (state w))" and "index \<notin> set (matched (state w))"
    and "symbol_at (deck (state w)) first = Some a"
    and "symbol_at (deck (state w)) index = Some b"
    and "a \<noteq> []" and "b \<noteq> []" and "a \<noteq> b"
    and "no_reset_pending w"
    and "list_all is_play es"
  shows "locked (state (handleFlip index w))
    \<and> (int (waited es) < MISMATCH_RESET_DELAY \<longrightarrow>
          locked (state (run es (handleFlip index w)))
        \<and> flipped (state (run es (handleFlip index w))) = [first, index]
        \<and> matched (state (run es (handleFlip index w))) = matched (state w)
        \<and> moves (state (run es (handleFlip index w))) = moves (state w) + 1
        \<and> handleFlip k (run es (handleFlip index w)) = run es (handleFlip index w))
    \<and> (int (waited es) < MISMATCH_RESET_DELAY
         \<and> MISMATCH_RESET_DELAY \<le> int (waited es) + int d \<longrightarrow>
          \<not> locked (state (advance d (run es (handleFlip index w))))
        \<and> flipped (state (advance d (run es (handleFlip index w)))) = []
        \<and> matched (state (advance d (run es (handleFlip index w)))) = matched (state w)
        \<and> flipped (state (handleFlip first (advance d (run es (handleFlip index w))))) = [first]
        \<and> flipped (state (handleFlip index (advance d (run es (handleFlip index w))))) = [index])
    \<and> state (fire (FlashFeedback [first, index] Bad 800) v) = state v
    \<and> (first < length (cardRefs v) \<longrightarrow>
          data_state (cardRefs (fire (MismatchReset [first, index]) v) ! first) = Some Idle)
    \<and> (index < length (cardRefs v) \<longrightarrow>
          data_state (cardRefs (fire (MismatchReset [first, index]) v) ! index) = Some Idle)"
proof -
  let ?w1 = "handleFlip index w"
  let ?tr = "now w + MISMATCH_RESET_DELAY"
  note mm = handleFlip_mismatch [OF assms(1-4) assms(6-11)]
  have pos: "0 < MISMATCH_RESET_DELAY"
    by (simp add: MISMATCH_RESET_DELAY_def FLIP_DURATION_def)
  have quiet: "\<forall>e \<in> set (timeouts w). \<not> is_reset (snd e)"
    using assms(12) by (simp add: no_reset_pending_def)
  have win: "lock_window ?tr [first, index] (matched (state w)) (moves (state w) + 1) ?w1"
    unfolding lock_window_def
    using mm pos quiet by auto
  have during: "lock_window ?tr [first, index] (matched (state w)) (moves (state w) + 1)
      (run es ?w1)" if "int (waited es) < MISMATCH_RESET_DELAY"
    using lock_window_run [OF assms(13) win] that by simp
  have part2: "locked (state (run es ?w1))
        \<and> flipped (state (run es ?w1)) = [first, index]
        \<and> matched (state (run es ?w1)) = matched (state w)
        \<and> moves (state (run es ?w1)) = moves (state w) + 1
        \<and> handleFlip k (run es ?w1) = run es ?w1"
    if "int (waited es) < MISMATCH_RESET_DELAY"
    using during [OF that] by (simp add: lock_window_def handleFlip_locked)
  have part3: "\<not> locked (state (advance d (run es ?w1)))
        \<and> flipped (state (advance d (run es ?w1))) = []
        \<and> matched (state (advance d (run es ?w1))) = matched (state w)
        \<and> flipped (state (handleFlip first (advance d (run es ?w1)))) = [first]
        \<and> flipped (state (handleFlip index (advance d (run es ?w1)))) = [index]"
    if a: "int (waited es) < MISMATCH_RESET_DELAY"
      and b: "MISMATCH_RESET_DELAY \<le> int (waited es) + int d"
  proof -
    have n: "now (run es ?w1) = now w + int (waited es)"
      using now_run_play [OF assms(13), of ?w1] by simp
    have due: "?tr \<le> now (run es ?w1) + int d" using n b by simp
    note e = lock_window_ends [OF during [OF a] due]
    from handleFlip_first_of_turn [OF e(1) e(4) e(2)] e assms(5,6)
    show ?thesis by simp
  qed
  have part4: "state (fire (FlashFeedback [first, index] Bad 800) v) = state v"
    by (simp add: state_fire del: fire.simps)
  from mm(1) part2 part3 part4 mismatch_reset_hides [where first = first and index = index and v = v]
  show ?thesis by blast
qed

theorem mismatch_lock_window_witness:
  "locked (state (handleFlip 1 (handleFlip 0 demo_world)))
   \<and> locked (state (run [Wait 700, Click 5, Wait 800] (handleFlip 1 (handleFlip 0 demo_world))))
   \<and> handleFlip 7 (run [Wait 700, Click 5, Wait 800] (handleFlip 1 (handleFlip 0 demo_world)))
       = run [Wait 700, Click 5, Wait 800] (handleFlip 1 (handleFlip 0 demo_world))
   \<and> \<not> locked (state (advance 100
         (run [Wait 700, Click 5, Wait 800] (handleFlip 1 (handleFlip 0 demo_world)))))
   \<and> flipped (state (advance 100
         (run [Wait 700, Click 5, Wait 800] (handleFlip 1 (handleFlip 0 demo_world))))) = []
   \<and> flipped (state (handleFlip 0 (advance 100
         (run [Wait 700, Click 5, Wait 800] (handleFlip 1 (handleFlip 0 demo_world)))))) = [0]
   \<and> flipped (state (handleFlip 1 (advance 100
         (run [Wait 700, Click 5, Wait 800] (handleFlip 1 (handleFlip 0 demo_world)))))) = [1]"
proof -
  let ?w = "handleFlip 0 demo_world"
  let ?es = "[Wait 700, Click 5, Wait 800]"
  let ?a = "[CHR 0xF0, CHR 0x9F, CHR 0x8D, CHR 0x91]"
  let ?b = "[CHR 0xF0, CHR 0x9F, CHR 0x8D, CHR 0x8D]"
  have h: "\<not> locked (state ?w)" "\<not> victory (state ?w)" "flipped (state ?w) = [0]"
    "(1::nat) \<noteq> 0" "0 \<notin> set (matched (state ?w))" "1 \<notin> set (matched (state ?w))"
    "symbol_at (deck (state ?w)) 0 = Some ?a" "symbol_at (deck (state ?w)) 1 = Some ?b"
    "?a \<noteq> []" "?b \<noteq> []" "?a \<noteq> ?b" "no_reset_pending ?w" "list_all is_play ?es"
    by code_simp+
  have t: "int (waited ?es) < MISMATCH_RESET_DELAY"
    "MISMATCH_RESET_DELAY \<le> int (waited ?es) + int 100"
    by code_simp+
  from mismatch_lock_window [OF h, of 7 100] t
  show ?thesis by blast
qed

text \<open>
  C8 as stated fails. In the session of \<open>mismatch_after_reset\<close> the second mismatch
  happens at time 1000; the callback of the first one, which the reset at time 100 left
  queued, runs at time 1550: 550 ms after the mismatch the state is unlocked and a reveal
  succeeds.
\<close>

theorem early_unlock_after_reset:
  "\<not> locked (state (run [Click 0, Click 1, Wait 100, ResetButton demo_draws, Wait 900, Click 0]
        demo_world))
   \<and> now mismatch_after_reset = 1000
   \<and> locked (state mismatch_after_reset)
   \<and> flipped (state mismatch_after_reset) = [0, 1]
   \<and> (550 :: int) < MISMATCH_RESET_DELAY
   \<and> \<not> locked (state (advance 550 mismatch_after_reset))
   \<and> flipped (state (handleFlip 2 (advance 550 mismatch_after_reset))) = [2]"
  by code_simp

subsection \<open>What pickNextPair picks\<close>

lemma map_of_bucket_push:
  "map_of (bucket_push symbol index buckets) =
     (map_of buckets)(symbol \<mapsto>
        (case map_of buckets symbol of None \<Rightarrow> [index] | Some grp \<Rightarrow> grp @ [index]))"
  by (induction buckets) (auto simp: fun_eq_iff)

lemma map_of_fold_bucket_push:
  "map_of (fold (\<lambda>i. bucket_push (f i) i) xs buckets) k =
     (case map_of buckets k of
        None \<Rightarrow> (if filter (\<lambda>i. f i = k) xs = [] then None
                 else Some (filter (\<lambda>i. f i = k) xs))
      | Some grp \<Rightarrow> Some (grp @ filter (\<lambda>i. f i = k) xs))"
proof (induction xs arbitrary: buckets)
  case Nil
  then show ?case by (simp split: option.splits)
next
  case (Cons x xs)
  show ?case
    by (simp add: Cons.IH map_of_bucket_push split: option.splits)
qed

lemma hd_bucket_push:
  "buckets \<noteq> [] \<Longrightarrow>
   bucket_push symbol index buckets \<noteq> [] \<and>
   fst (hd (bucket_push symbol index buckets)) = fst (hd buckets)"
  by (cases buckets) (auto split: if_splits)

lemma hd_fold_bucket_push:
  "buckets \<noteq> [] \<Longrightarrow>
   fold (\<lambda>i. bucket_push (f i) i) xs buckets \<noteq> [] \<and>
   fst (hd (fold (\<lambda>i. bucket_push (f i) i) xs buckets)) = fst (hd buckets)"
proof (induction xs arbitrary: buckets)
  case Nil
  then show ?case by simp
next
  case (Cons x xs)
  from hd_bucket_push [OF Cons.prems, of "f x" x]
  show ?case using Cons.IH [of "bucket_push (f x) x buckets"] by simp
qed

text \<open>The first bucket holds the first position and every later one with its symbol.\<close>

lemma hd_buckets:
  "hd (fold (\<lambda>i. bucket_push (f i) i) (x # xs) []) =
     (f x, x # filter (\<lambda>i. f i = f x) xs)
   \<and> fold (\<lambda>i. bucket_push (f i) i) (x # xs) [] \<noteq> []"
proof -
  let ?B = "fold (\<lambda>i. bucket_push (f i) i) xs [(f x, [x])]"
  have B: "fold (\<lambda>i. bucket_push (f i) i) (x # xs) [] = ?B" by simp
  have ne: "?B \<noteq> []" and k: "fst (hd ?B) = f x"
    using hd_fold_bucket_push [of "[(f x, [x])]" f xs] by simp_all
  have "map_of ?B (f x) = Some (x # filter (\<lambda>i. f i = f x) xs)"
    by (simp add: map_of_fold_bucket_push)
  moreover have "map_of ?B (fst (hd ?B)) = Some (snd (hd ?B))"
    using ne by (cases ?B) auto
  ultimately have "snd (hd ?B) = x # filter (\<lambda>i. f i = f x) xs"
    using k by simp
  with k ne B show ?thesis by (simp add: prod_eq_iff)
qed

lemma fold_skip:
  "fold (\<lambda>x acc. if P x then acc else g x acc) xs acc0 = fold g (filter (\<lambda>x. \<not> P x) xs) acc0"
  by (induction xs arbitrary: acc0) auto

lemma buckets_of_unmatched:
  "buckets_of s = fold (\<lambda>i. bucket_push (deck s ! i) i) (unmatched s) []"
  by (simp add: buckets_of_def unmatched_def fold_skip)

text \<open>
  When the first unmatched position has exactly one unmatched partner, pickNextPair
  returns the two, in this order.
\<close>

lemma pickNextPair_first:
  assumes "unmatched (state w) = a # rest"
    and "filter (\<lambda>i. deck (state w) ! i = deck (state w) ! a) rest = [b]"
  shows "pickNextPair w = Some (a, b)"
proof -
  let ?f = "\<lambda>i. deck (state w) ! i"
  let ?B = "buckets_of (state w)"
  have B: "?B = fold (\<lambda>i. bucket_push (?f i) i) (a # rest) []"
    using assms(1) by (simp add: buckets_of_unmatched)
  have "hd ?B = (?f a, [a, b])" and "?B \<noteq> []"
    using hd_buckets [of ?f a rest] assms(2) B by simp_all
  then obtain more where "?B = (?f a, [a, b]) # more"
    by (cases ?B) auto
  then show ?thesis by (simp add: pickNextPair_def)
qed

subsection \<open>Effects of single steps\<close>

lemma cardRefs_setTimeout [simp]: "cardRefs (setTimeout cb d w) = cardRefs w"
  by (simp add: setTimeout_def)

lemma cardRefs_startTimer [simp]: "cardRefs (startTimer p w) = cardRefs w"
  by (simp add: startTimer_def tickTimer_def Let_def split: option.splits)

lemma cardRefs_handleWin [simp]: "cardRefs (handleWin w) = cardRefs w"
  by (simp add: handleWin_def stopTimer_def Let_def split: option.splits)

lemma cardRefs_checkVictory [simp]: "cardRefs (checkVictory w) = cardRefs w"
  by (simp add: checkVictory_def)

lemma cardRefs_queueMismatchReset [simp]: "cardRefs (queueMismatchReset indices w) = cardRefs w"
  by (simp add: queueMismatchReset_def Let_def)

lemma length_cardRefs_handleFlip [simp]:
  "length (cardRefs (handleFlip index w)) = length (cardRefs w)"
  by (simp add: handleFlip_def Let_def)

lemma length_cardRefs_fold_same:
  "(\<And>x w. length (cardRefs (f x w)) = length (cardRefs w)) \<Longrightarrow>
   length (cardRefs (fold f xs w)) = length (cardRefs w)"
  by (induction xs arbitrary: w) auto

lemma length_cardRefs_clearFeedbackAt [simp]:
  "length (cardRefs (clearFeedbackAt mood idx w)) = length (cardRefs w)"
  by (simp add: clearFeedbackAt_def)

lemma length_cardRefs_fire [simp]: "length (cardRefs (fire cb w)) = length (cardRefs w)"
  by (cases cb) (simp_all add: flashFeedback_def Let_def length_cardRefs_fold_same)

lemma length_cardRefs_run_timeouts [simp]:
  "length (cardRefs (run_timeouts T w)) = length (cardRefs w)"
proof (induction T w rule: run_timeouts.induct)
  case (1 T w)
  show ?case
  proof (cases "earliest (timeouts w)")
    case None
    then show ?thesis by (simp add: run_timeouts.simps [of T w])
  next
    case (Some e)
    obtain t cb where e: "e = (t, cb)" by (cases e)
    show ?thesis
    proof (cases "t \<le> T")
      case False
      with Some e show ?thesis by (simp add: run_timeouts.simps [of T w])
    next
      case True
      have "run_timeouts T w = run_timeouts T (run_one t cb w)"
        using Some e True by (simp add: run_timeouts.simps [of T w])
      moreover have "length (cardRefs (run_timeouts T (run_one t cb w)))
          = length (cardRefs (run_one t cb w))"
        using "1.IH" [OF Some e [symmetric] True] .
      ultimately show ?thesis by (simp add: run_one_def del: fire.simps)
    qed
  qed
qed

lemma length_cardRefs_advance [simp]:
  "length (cardRefs (advance d w)) = length (cardRefs w)"
  by (simp add: advance_def Let_def)

lemma no_reset_pending_advance:
  assumes "no_reset_pending w"
  shows "no_reset_pending (advance d w)"
    and "flipped (state (advance d w)) = flipped (state w)"
    and "locked (state (advance d w)) = locked (state w)"
proof -
  have none: "\<And>e. e \<in> set (timeouts w) \<Longrightarrow> \<not> is_reset (snd e)"
    using assms by (simp add: no_reset_pending_def)
  have r: "{e \<in> set (timeouts (advance d w)). is_reset (snd e)}
      = {e \<in> set (timeouts w). is_reset (snd e) \<and> now w + int d < fst e}"
    by (simp only: timeouts_advance resets_run_timeouts)
  show "no_reset_pending (advance d w)"
    unfolding no_reset_pending_def
  proof
    fix e assume "e \<in> set (timeouts (advance d w))"
    show "\<not> is_reset (snd e)"
    proof
      assume "is_reset (snd e)"
      with \<open>e \<in> set (timeouts (advance d w))\<close>
      have "e \<in> {e \<in> set (timeouts (advance d w)). is_reset (snd e)}" by simp
      with r have "e \<in> set (timeouts w)" by simp
      with none \<open>is_reset (snd e)\<close> show False by blast
    qed
  qed
  have "\<not> reset_due (now w + int d) w"
    using none unfolding reset_due_def by blast
  then show "flipped (state (advance d w)) = flipped (state w)"
    and "locked (state (advance d w)) = locked (state w)"
    by (simp_all add: advance_turn)
qed

text \<open>An accepted reveal on an empty buffer.\<close>

lemma handleFlip_first_effect:
  assumes "\<not> locked (state w)" and "\<not> victory (state w)" and "flipped (state w) = []"
    and "index \<notin> set (matched (state w))"
  shows "flipped (state (handleFlip index w)) = [index]"
    and "\<not> locked (state (handleFlip index w))"
    and "\<not> victory (state (handleFlip index w))"
    and "matched (state (handleFlip index w)) = matched (state w)"
    and "moves (state (handleFlip index w)) = moves (state w)"
    and "deck (state (handleFlip index w)) = deck (state w)"
    and "timeouts (handleFlip index w) = timeouts w"
  using assms by (simp_all add: handleFlip_def Let_def state_startTimer)

text \<open>An accepted reveal that completes a pair of equal symbols.\<close>

lemma handleFlip_pair_effect:
  assumes "\<not> locked (state w)" and "\<not> victory (state w)"
    and "flipped (state w) = [first]" and "index \<noteq> first"
    and "index \<notin> set (matched (state w))"
    and "symbol_at (deck (state w)) first = Some symbol"
    and "symbol_at (deck (state w)) index = Some symbol"
    and "symbol \<noteq> []"
  shows "matched (state (handleFlip index w)) = matched (state w) @ [first, index]"
    and "flipped (state (handleFlip index w)) = []"
    and "\<not> locked (state (handleFlip index w))"
    and "victory (state (handleFlip index w))
           = (length (matched (state w)) + 2 = length (deck (state w)))"
    and "moves (state (handleFlip index w)) = moves (state w) + 1"
    and "deck (state (handleFlip index w)) = deck (state w)"
    and "timeouts (handleFlip index w) =
           timeouts w @ [(now w + 250, MarkMatched first index),
                         (now w + FLIP_DURATION, FlashFeedback [first, index] Good 2000)]"
  using assms
  by (simp_all add: handleFlip_def Let_def state_startTimer falsy_def state_checkVictory
        setTimeout_def)

subsection \<open>One round of the solver\<close>

lemma unmatched_nonempty:
  assumes "distinct (matched s)" and "\<forall>i \<in> set (matched s). i < length (deck s)"
    and "length (matched s) \<noteq> length (deck s)"
  shows "unmatched s \<noteq> []"
proof
  assume "unmatched s = []"
  then have "\<forall>i < length (deck s). i \<in> set (matched s)"
    by (auto simp: unmatched_def filter_empty_conv)
  with assms(2) have "set (matched s) = {..<length (deck s)}" by auto
  then have "card (set (matched s)) = length (deck s)" by simp
  with assms(1) have "length (matched s) = length (deck s)"
    by (simp add: distinct_card)
  with assms(3) show False by simp
qed

lemma unmatched_facts:
  "distinct (unmatched s)"
  "i \<in> set (unmatched s) \<longleftrightarrow> i < length (deck s) \<and> i \<notin> set (matched s)"
  by (auto simp: unmatched_def)

lemma sleep_ready:
  assumes "no_reset_pending w"
  shows "no_reset_pending (sleep d w)"
    and "flipped (state (sleep d w)) = flipped (state w)"
    and "locked (state (sleep d w)) = locked (state w)"
    and "victory (state (sleep d w)) = victory (state w)"
    and "matched (state (sleep d w)) = matched (state w)"
    and "moves (state (sleep d w)) = moves (state w)"
    and "deck (state (sleep d w)) = deck (state w)"
    and "length (cardRefs (sleep d w)) = length (cardRefs w)"
  using no_reset_pending_advance [OF assms] by (simp_all add: sleep_def)

lemma no_reset_pending_append:
  "no_reset_pending w \<Longrightarrow> timeouts w' = timeouts w @ extra \<Longrightarrow>
   \<forall>e \<in> set extra. \<not> is_reset (snd e) \<Longrightarrow> no_reset_pending w'"
  by (auto simp: no_reset_pending_def)

text \<open>One round of the solver from a ready state that is not yet solved.\<close>

lemma solver_round:
  assumes "solver_ready w" and "\<not> victory (state w)"
  shows "\<exists>a b. pickNextPair w = Some (a, b)
           \<and> a = hd (unmatched (state w))
           \<and> b \<in> set (unmatched (state w)) \<and> a \<noteq> b
           \<and> deck (state w) ! a = deck (state w) ! b
           \<and> solver_ready (flipPairAutomatically a b w)
           \<and> matched (state (flipPairAutomatically a b w)) = matched (state w) @ [a, b]
           \<and> moves (state (flipPairAutomatically a b w)) = moves (state w) + 1
           \<and> deck (state (flipPairAutomatically a b w)) = deck (state w)"
proof -
  let ?s = "state w"
  let ?d = "deck ?s"
  have r: "flipped ?s = []" "\<not> locked ?s"
    "victory ?s = (length (matched ?s) = length ?d)"
    "distinct (matched ?s)" "\<forall>i \<in> set (matched ?s). i < length ?d"
    "no_reset_pending w" "length (cardRefs w) = length ?d"
    and sym: "\<And>k. k \<in> set ?d \<Longrightarrow> k \<noteq> []"
    and two: "\<And>k. k \<in> set ?d \<Longrightarrow>
        length (positions_of ?s k) = 0 \<or> length (positions_of ?s k) = 2"
    using assms(1) by (simp_all add: solver_ready_def)
  have "unmatched ?s \<noteq> []"
    using unmatched_nonempty [OF r(4) r(5)] r(3) assms(2) by simp
  then obtain a rest where U: "unmatched ?s = a # rest" by (cases "unmatched ?s") auto
  have a: "a < length ?d" "a \<notin> set (matched ?s)"
    using unmatched_facts(2) [of a ?s] U by simp_all
  let ?k = "?d ! a"
  have k: "?k \<in> set ?d" using a(1) by simp
  have pos: "positions_of ?s ?k = a # filter (\<lambda>i. ?d ! i = ?k) rest"
    by (simp add: positions_of_def U)
  with two [OF k] have "length (filter (\<lambda>i. ?d ! i = ?k) rest) = 1" by simp
  then obtain b where b: "filter (\<lambda>i. ?d ! i = ?k) rest = [b]"
    by (cases "filter (\<lambda>i. ?d ! i = ?k) rest") auto
  have pick: "pickNextPair w = Some (a, b)"
    using pickNextPair_first [OF U b] .
  have "b \<in> set (filter (\<lambda>i. ?d ! i = ?k) rest)" using b by simp
  then have brest: "b \<in> set rest" and bk: "?d ! b = ?k" by simp_all
  have bU: "b \<in> set (unmatched ?s)" using brest U by simp
  then have b': "b < length ?d" "b \<notin> set (matched ?s)"
    using unmatched_facts(2) [of b ?s] by simp_all
  have ab: "a \<noteq> b"
    using unmatched_facts(1) [of ?s] U brest by auto
  \<comment> \<open>the four steps of flipPairAutomatically\<close>
  let ?w1 = "handleFlip a w"
  let ?w2 = "sleep (FLIP_DURATION + 120) ?w1"
  let ?w3 = "handleFlip b ?w2"
  let ?w4 = "sleep WAIT_AFTER_MATCH ?w3"
  have fp: "flipPairAutomatically a b w = ?w4"
    using a(1) b'(1) r(7) by (simp add: flipPairAutomatically_def Let_def)
  note e1 = handleFlip_first_effect [OF r(2) assms(2) r(1) a(2)]
  have q1: "no_reset_pending ?w1"
    using r(6) e1(7) by (simp add: no_reset_pending_def)
  note e2 = sleep_ready [OF q1, of "FLIP_DURATION + 120"]
  have c2: "\<not> locked (state ?w2)" "\<not> victory (state ?w2)" "flipped (state ?w2) = [a]"
    "b \<noteq> a" "b \<notin> set (matched (state ?w2))"
    "symbol_at (deck (state ?w2)) a = Some ?k" "symbol_at (deck (state ?w2)) b = Some ?k"
    "?k \<noteq> []"
    using e1 e2 a b' ab bk sym [OF k] by (simp_all add: symbol_at_def)
  note e3 = handleFlip_pair_effect [OF c2]
  have q3: "no_reset_pending ?w3"
    using no_reset_pending_append [OF e2(1) e3(7)] by simp
  note e4 = sleep_ready [OF q3, of WAIT_AFTER_MATCH]
  have m4: "matched (state ?w4) = matched ?s @ [a, b]"
    using e4 e3 e2 e1 by simp
  have d4: "deck (state ?w4) = ?d"
    using e4 e3 e2 e1 by simp
  have mv4: "moves (state ?w4) = moves ?s + 1"
    using e4 e3 e2 e1 by simp
  have v4: "victory (state ?w4) = (length (matched (state ?w4)) = length (deck (state ?w4)))"
    using e4 e3 e2 e1 m4 d4 by simp
  have f4: "flipped (state ?w4) = []" "\<not> locked (state ?w4)"
    using e4 e3 by simp_all
  have c4: "length (cardRefs ?w4) = length (deck (state ?w4))"
    using e4(8) e2(8) r(7) d4 by simp
  have dist4: "distinct (matched (state ?w4))"
    using m4 r(4) a(2) b'(2) ab by simp
  have bound4: "\<forall>i \<in> set (matched (state ?w4)). i < length (deck (state ?w4))"
    using m4 d4 r(5) a(1) b'(1) by simp
  have un4: "unmatched (state ?w4) = filter (\<lambda>i. i \<noteq> a \<and> i \<noteq> b) (unmatched ?s)"
    by (auto simp: unmatched_def m4 d4 intro!: filter_cong)
  have pos4: "positions_of (state ?w4) k' = filter (\<lambda>i. i \<noteq> a \<and> i \<noteq> b) (positions_of ?s k')"
    for k'
    unfolding positions_of_def un4 d4 by (simp add: conj_commute)
  have two4: "k' \<noteq> [] \<and> (length (positions_of (state ?w4) k') = 0
        \<or> length (positions_of (state ?w4) k') = 2)" if "k' \<in> set ?d" for k'
  proof (cases "k' = ?k")
    case True
    have "positions_of ?s ?k = [a, b]" using pos b by simp
    with True ab show ?thesis using sym [OF k] by (simp add: pos4)
  next
    case False
    have "a \<notin> set (positions_of ?s k')" "b \<notin> set (positions_of ?s k')"
      using False bk by (auto simp: positions_of_def)
    then have "filter (\<lambda>i. i \<noteq> a \<and> i \<noteq> b) (positions_of ?s k') = positions_of ?s k'"
      by (intro filter_True) auto
    with two [OF that] sym [OF that] show ?thesis by (simp add: pos4)
  qed
  have ready4: "solver_ready ?w4"
    unfolding solver_ready_def
    using f4 v4 dist4 bound4 two4 e4(1) c4 d4 by simp
  have "hd (unmatched ?s) = a" using U by simp
  with pick bU ab bk ready4 m4 mv4 d4 fp show ?thesis by auto
qed

subsection \<open>The solver on a fresh chill deck (C9)\<close>

lemma solver_loop_completes:
  assumes "solver_ready w"
    and "length (deck (state w)) = length (matched (state w)) + 2 * r"
    and "guard + r \<le> 200"
  shows "\<exists>w'. solver_loop guard w = Some w' \<and> victory (state w')
           \<and> moves (state w') = moves (state w) + r"
  using assms
proof (induction r arbitrary: w guard)
  case 0
  then have "victory (state w)" by (simp add: solver_ready_def)
  then show ?case by (simp add: solver_loop.simps [of guard w])
next
  case (Suc r)
  have nv: "\<not> victory (state w)" and nl: "\<not> locked (state w)"
    using Suc.prems(1,2) by (simp_all add: solver_ready_def)
  have g: "guard < 200" using Suc.prems(3) by simp
  from solver_round [OF Suc.prems(1) nv] obtain a b where
    pick: "pickNextPair w = Some (a, b)"
    and ready: "solver_ready (flipPairAutomatically a b w)"
    and m: "matched (state (flipPairAutomatically a b w)) = matched (state w) @ [a, b]"
    and mv: "moves (state (flipPairAutomatically a b w)) = moves (state w) + 1"
    and d: "deck (state (flipPairAutomatically a b w)) = deck (state w)"
    by blast
  let ?w = "flipPairAutomatically a b w"
  have step: "solver_loop guard w = solver_loop (guard + 1) ?w"
    using nv nl g pick by (simp add: solver_loop.simps [of guard w])
  have "length (deck (state ?w)) = length (matched (state ?w)) + 2 * r"
    using Suc.prems(2) m d by simp
  moreover have "guard + 1 + r \<le> 200" using Suc.prems(3) by simp
  ultimately obtain w' where "solver_loop (guard + 1) ?w = Some w'"
    "victory (state w')" "moves (state w') = moves (state ?w) + r"
    using Suc.IH [OF ready] by blast
  with step mv show ?case by simp
qed

lemma count_positions:
  "length (filter (\<lambda>i. xs ! i = k) [0..<length xs]) = count_list xs k"
proof -
  have "filter (\<lambda>x. x = k) xs = filter (\<lambda>x. x = k) (map ((!) xs) [0..<length xs])"
    by (simp only: map_nth)
  also have "\<dots> = map ((!) xs) (filter (\<lambda>i. xs ! i = k) [0..<length xs])"
    by (simp only: filter_map comp_def)
  finally have "length (filter (\<lambda>x. x = k) xs)
      = length (filter (\<lambda>i. xs ! i = k) [0..<length xs])"
    by simp
  moreover have "filter ((=) k) xs = filter (\<lambda>x. x = k) xs"
    by (rule filter_cong) auto
  ultimately show ?thesis
    by (simp add: count_list_eq_length_filter)
qed

lemma set_buildDeck: "set (buildDeck rnd config) \<subseteq> set (pool config)"
proof -
  have "set (buildDeck rnd config) = set_mset (mset (buildDeck rnd config))" by simp
  also have "\<dots> = set (take (pairs config) (shuffle rnd (pool config)))"
    by (simp only: mset_buildDeck) simp
  also have "\<dots> \<subseteq> set (shuffle rnd (pool config))" by (rule set_take_subset)
  finally show ?thesis by (simp add: set_shuffle)
qed

lemma solver_ready_initial: "solver_ready (initial_world rnd t0)"
proof -
  let ?c = "difficulties chill"
  let ?w = "initial_world rnd t0"
  have s: "state ?w = createInitialState rnd"
    by (simp add: initial_world_def)
  have d: "deck (state ?w) = buildDeck rnd ?c" and m: "matched (state ?w) = []"
    and f: "flipped (state ?w) = []" "\<not> locked (state ?w)" "\<not> victory (state ?w)"
    by (simp_all add: s createInitialState_def defaultDifficulty_def Let_def
          del: difficulties.simps)
  have p6: "pairs ?c = 6" by simp
  have len: "length (deck (state ?w)) = 12"
    using length_buildDeck [OF difficulties_sound(2) [of chill], of rnd] p6
    by (simp only: d)
  have t: "timeouts ?w = []"
    unfolding initial_world_def
    by (subst timeouts_rebuildBoard) (simp_all add: createInitialState_def Let_def)
  have c: "length (cardRefs ?w) = length (deck (state ?w))"
    by (simp add: initial_world_def)
  have u: "unmatched (state ?w) = [0..<length (deck (state ?w))]"
    by (simp add: unmatched_def m)
  have two: "k \<noteq> [] \<and> (length (positions_of (state ?w) k) = 0
      \<or> length (positions_of (state ?w) k) = 2)" if "k \<in> set (deck (state ?w))" for k
  proof -
    have "k \<in> set (pool ?c)" using that set_buildDeck [of rnd ?c] by (auto simp: d)
    then have "k \<noteq> []" by (auto simp: chill_pool_def)
    moreover have "length (positions_of (state ?w) k) = count_list (deck (state ?w)) k"
      by (simp add: positions_of_def u count_positions)
    moreover have "count_list (deck (state ?w)) k = 2"
      using count_buildDeck [OF difficulties_sound(1) [of chill], of k rnd] that
      by (simp add: d)
    ultimately show ?thesis by simp
  qed
  show ?thesis
    unfolding solver_ready_def
    using f m len t c two by (simp add: no_reset_pending_def)
qed

text \<open>
  C9. On the freshly loaded page (a chill deck built from any draws) the solver, left
  alone, returns, with \<open>victory\<close> true and \<open>moves\<close> equal to 6. The page starts in a state
  ready for a round; in every such state that is not yet solved pickNextPair returns the
  first unmatched position and the other unmatched position with the same symbol, and
  the round that flips them ends in a ready state with one more move.
\<close>

theorem solver_wins_chill:
  "(\<exists>w'. secretSolvePuzzle (initial_world rnd t0) = Some w'
         \<and> victory (state w') \<and> moves (state w') = 6)
   \<and> solver_ready (initial_world rnd t0)
   \<and> (solver_ready w \<and> \<not> victory (state w) \<longrightarrow>
        (\<exists>a b. pickNextPair w = Some (a, b)
           \<and> a = hd (unmatched (state w))
           \<and> b \<in> set (unmatched (state w)) \<and> a \<noteq> b
           \<and> deck (state w) ! a = deck (state w) ! b
           \<and> solver_ready (flipPairAutomatically a b w)
           \<and> matched (state (flipPairAutomatically a b w)) = matched (state w) @ [a, b]
           \<and> moves (state (flipPairAutomatically a b w)) = moves (state w) + 1))"
proof (intro conjI impI)
  let ?w = "initial_world rnd t0"
  have ready: "solver_ready ?w" by (rule solver_ready_initial)
  have p6: "pairs (difficulties chill) = 6" by simp
  have f: "\<not> victory (state ?w)" "matched (state ?w) = []" "moves (state ?w) = 0"
    "deck (state ?w) = buildDeck rnd (difficulties chill)"
    by (simp_all add: initial_world_def createInitialState_def defaultDifficulty_def Let_def
          del: difficulties.simps)
  have len: "length (deck (state ?w)) = 12"
    using length_buildDeck [OF difficulties_sound(2) [of chill], of rnd] p6
    by (simp only: f(4))
  have "length (deck (state ?w)) = length (matched (state ?w)) + 2 * 6"
    using f len by simp
  from solver_loop_completes [OF ready this, of 0] f
  show "\<exists>w'. secretSolvePuzzle ?w = Some w' \<and> victory (state w') \<and> moves (state w') = 6"
    by (simp add: secretSolvePuzzle_def)
  show "solver_ready ?w" by (rule ready)
next
  assume "solver_ready w \<and> \<not> victory (state w)"
  then have "solver_ready w" "\<not> victory (state w)" by simp_all
  from solver_round [OF this]
  show "\<exists>a b. pickNextPair w = Some (a, b)
           \<and> a = hd (unmatched (state w))
           \<and> b \<in> set (unmatched (state w)) \<and> a \<noteq> b
           \<and> deck (state w) ! a = deck (state w) ! b
           \<and> solver_ready (flipPairAutomatically a b w)
           \<and> matched (state (flipPairAutomatically a b w)) = matched (state w) @ [a, b]
           \<and> moves (state (flipPairAutomatically a b w)) = moves (state w) + 1"
    by blast
qed

theorem solver_wins_chill_witness:
  "(\<exists>w'. secretSolvePuzzle demo_world = Some w' \<and> victory (state w') \<and> moves (state w') = 6)
   \<and> \<not> victory (state demo_world)
   \<and> pickNextPair demo_world = Some (0, 11)
   \<and> (\<exists>a b. pickNextPair demo_world = Some (a, b)
         \<and> a = hd (unmatched (state demo_world))
         \<and> solver_ready (flipPairAutomatically a b demo_world)
         \<and> moves (state (flipPairAutomatically a b demo_world)) = 1)"
proof -
  have nv: "\<not> victory (state demo_world)" and p: "pickNextPair demo_world = Some (0, 11)"
    and m: "moves (state demo_world) = 0"
    by code_simp+
  from solver_wins_chill [of demo_draws 0 demo_world] nv p m
  show ?thesis unfolding demo_world_def by auto
qed

end
